theory Spec2Isabelle
  imports Complex_Main "HOL-Library.Word"
begin

section \<open>Data model\<close>

text \<open>
  The types of \<^verbatim>\<open>common.hpp\<close> and \<^verbatim>\<open>annotation.hpp\<close> are not part of the sources
  at hand; they are fixed here from the way \<^verbatim>\<open>filter_blacklisted_ranges.cpp\<close> uses
  them. A position (\<^verbatim>\<open>position_t\<close>) is a 32-bit \<^verbatim>\<open>int\<close>: the model keeps it as an
  integer between \<open>INT_MIN\<close> and \<open>INT_MAX\<close> and brings the result of every addition,
  subtraction and multiplication of the source back into that range with \<open>int32\<close>,
  the two's complement value that the machine computes. A contig (\<^verbatim>\<open>contig_t\<close>) is an opaque number. A finite
  floating point value (\<^verbatim>\<open>float\<close>) is kept as the rational it denotes.
\<close>

definition INT_MAX :: int where
  "INT_MAX = 2147483647"

definition INT_MIN :: int where
  "INT_MIN = - 2147483648"

definition int32 :: "int \<Rightarrow> int" where
  "int32 x = (x + 2147483648) mod 4294967296 - 2147483648"

definition fits_int :: "int \<Rightarrow> bool" where
  "fits_int x = (INT_MIN \<le> x \<and> x \<le> INT_MAX)"

type_synonym position_t = int
type_synonym contig_t = nat

datatype strand_t = FORWARD | REVERSE
datatype direction_t = UPSTREAM | DOWNSTREAM

text \<open>
  \<^verbatim>\<open>gene_t\<close> is a pointer to an annotation record. The value below is the address
  (\<open>gene_id\<close>) together with the fields of the record it points to that the
  code reads, so that equality of two values is equality of the pointers.
\<close>

record gene_t =
  gene_id :: nat
  gene_contig :: contig_t
  gene_start :: position_t
  gene_end :: position_t

datatype blacklist_item_type_t =
  BLACKLIST_RANGE | BLACKLIST_POSITION | BLACKLIST_GENE | BLACKLIST_ANY
  | BLACKLIST_SPLIT_READ_DONOR | BLACKLIST_SPLIT_READ_ACCEPTOR | BLACKLIST_SPLIT_READ_ANY
  | BLACKLIST_DISCORDANT_MATES | BLACKLIST_READ_THROUGH | BLACKLIST_LOW_SUPPORT
  | BLACKLIST_FILTER_SPLICED | BLACKLIST_NOT_BOTH_SPLICED

record blacklist_item_t =
  item_type :: blacklist_item_type_t
  strand_defined :: bool
  strand :: strand_t
  contig :: contig_t
  start :: position_t
  end_pos :: position_t
  gene :: gene_t

text \<open>
  The fields of \<^verbatim>\<open>fusion_t\<close> that the filter reads or writes. \<open>filter_ptr\<close> is the
  \<^verbatim>\<open>filter\<close> pointer: \<open>None\<close> is \<^verbatim>\<open>NULL\<close>, \<open>Some name\<close> points to the entry
  of \<^verbatim>\<open>FILTERS\<close> with that name. \<open>is_read_through\<close> is the result of the method
  \<^verbatim>\<open>is_read_through()\<close> of the fusion, which is defined outside this file. The three
  read counts are 32-bit machine integers: their sums wrap around, and a sum is
  compared with 0 only, which comes to the same for \<^verbatim>\<open>unsigned int\<close> and for
  \<^verbatim>\<open>int\<close>.
\<close>

record fusion_t =
  contig1 :: contig_t
  contig2 :: contig_t
  breakpoint1 :: position_t
  breakpoint2 :: position_t
  predicted_strand1 :: strand_t
  predicted_strand2 :: strand_t
  predicted_strands_ambiguous :: bool
  direction1 :: direction_t
  direction2 :: direction_t
  gene1 :: gene_t
  gene2 :: gene_t
  spliced1 :: bool
  spliced2 :: bool
  split_reads1 :: "32 word"
  split_reads2 :: "32 word"
  discordant_mates :: "32 word"
  evalue :: rat
  is_read_through :: bool
  closest_genomic_breakpoint1 :: position_t
  filter_ptr :: "string option"

section \<open>Floating point\<close>

text \<open>
  The quotient \<^verbatim>\<open>1.0 * a / b\<close> of two \<^verbatim>\<open>int\<close>s is computed in binary64 and returned
  as a \<^verbatim>\<open>float\<close>, which rounds it a second time, to binary32; both roundings are to
  the nearest value, ties to the even significand. \<open>round_quotient p n d\<close> is the
  number with a significand of \<open>p\<close> bits that is nearest to \<open>n / d\<close>, for positive
  \<open>n\<close> and \<open>d\<close>, as significand and exponent. The quotients of two 32-bit integers
  are far from the ends of the exponent range of either format, so exponents are not
  bounded here.
\<close>

function bit_length :: "int \<Rightarrow> int" where
  "bit_length n = (if n \<le> 0 then 0 else 1 + bit_length (n div 2))"
  by pat_completeness auto
termination
  by (relation "measure nat") auto

declare bit_length.simps [simp del]

definition round_half_even :: "int \<Rightarrow> int \<Rightarrow> int" where
  "round_half_even n d =
     (let q = n div d; r = n mod d
      in if 2 * r < d then q else if 2 * r > d then q + 1 else if even q then q else q + 1)"

definition floor_log2 :: "int \<Rightarrow> int \<Rightarrow> int" where
  "floor_log2 n d =
     (let t = bit_length n - bit_length d
      in if (if 0 \<le> t then d * 2 ^ nat t \<le> n else d \<le> n * 2 ^ nat (- t)) then t else t - 1)"

definition round_quotient :: "nat \<Rightarrow> int \<Rightarrow> int \<Rightarrow> int \<times> int" where
  "round_quotient p n d =
     (let e = floor_log2 n d - int p + 1
      in if 0 \<le> e then (round_half_even n (d * 2 ^ nat e), e)
         else (round_half_even (n * 2 ^ nat (- e)) d, e))"

definition pow2 :: "int \<Rightarrow> rat" where
  "pow2 k = (if 0 \<le> k then 2 ^ nat k else 1 / 2 ^ nat (- k))"

text \<open>
  The \<^verbatim>\<open>float\<close> that \<^verbatim>\<open>return 1.0 * a / b\<close> returns. For \<open>b = 0\<close> the code
  returns an infinity or a NaN (the only division by zero that
  \<^verbatim>\<open>overlapping_fraction\<close> can make is 0 by 0, a NaN, which is not greater than 0.5);
  the model returns 0, which is not greater than 0.5 either.
\<close>

definition float_of_quotient :: "int \<Rightarrow> int \<Rightarrow> rat" where
  "float_of_quotient a b =
     (if a = 0 \<or> b = 0 then 0
      else
        (let (m1, e1) = round_quotient 53 \<bar>a\<bar> \<bar>b\<bar>;
             (m2, e2) = round_quotient 24 (if 0 \<le> e1 then m1 * 2 ^ nat e1 else m1)
                          (if 0 \<le> e1 then 1 else 2 ^ nat (- e1))
         in of_int (sgn a * sgn b * m2) * pow2 e2))"

section \<open>Overlap of a gene with a blacklisted range\<close>

text \<open>\<^verbatim>\<open>overlapping_fraction\<close>, branch by branch.\<close>

definition overlapping_fraction :: "position_t \<Rightarrow> position_t \<Rightarrow> position_t \<Rightarrow> position_t \<Rightarrow> rat" where
  "overlapping_fraction start1 end1 start2 end2 =
     (if start1 \<ge> start2 \<and> end1 \<le> end2 then 1
      else if start1 \<ge> start2 \<and> start1 \<le> end2 then
        float_of_quotient (int32 (start1 - start2)) (int32 (int32 (end1 - start1) + 1))
      else if end1 \<ge> start2 \<and> end1 \<le> end2 then
        float_of_quotient (int32 (end2 - end1)) (int32 (int32 (end1 - start1) + 1))
      else 0)"

text \<open>
  What the comment above the function promises, "the fraction of range1 that overlaps
  range2", written out for inclusive integer ranges: the number of positions the two
  ranges share, over the number of positions of the first.
\<close>

definition intersection_length :: "position_t \<Rightarrow> position_t \<Rightarrow> position_t \<Rightarrow> position_t \<Rightarrow> int" where
  "intersection_length start1 end1 start2 end2 =
     max 0 (min end1 end2 - max start1 start2 + 1)"

definition fraction_of_range1_in_range2 :: "position_t \<Rightarrow> position_t \<Rightarrow> position_t \<Rightarrow> position_t \<Rightarrow> rat" where
  "fraction_of_range1_in_range2 start1 end1 start2 end2 =
     of_int (intersection_length start1 end1 start2 end2) / of_int (end1 - start1 + 1)"

section \<open>Matching one blacklist item against one breakpoint\<close>

text \<open>
  \<^verbatim>\<open>matches_blacklist_item\<close>. \<open>which_breakpoint\<close> is a \<^verbatim>\<open>char\<close> holding 1 or 2;
  the position and range cases read the first breakpoint for 1 and the second for
  any other value, the other cases compare with 1 and with 2, as the source does.
\<close>

fun matches_blacklist_item :: "blacklist_item_t \<Rightarrow> fusion_t \<Rightarrow> nat \<Rightarrow> rat \<Rightarrow> int \<Rightarrow> bool" where
  "matches_blacklist_item blacklist_item fusion which_breakpoint evalue_cutoff max_mate_gap =
     (case item_type blacklist_item of
        BLACKLIST_ANY \<Rightarrow> True
      | BLACKLIST_SPLIT_READ_DONOR \<Rightarrow>
          (which_breakpoint = 1 \<and> discordant_mates fusion + split_reads1 fusion = 0 \<or>
           which_breakpoint = 2 \<and> discordant_mates fusion + split_reads2 fusion = 0)
      | BLACKLIST_SPLIT_READ_ACCEPTOR \<Rightarrow>
          (which_breakpoint = 1 \<and> discordant_mates fusion + split_reads2 fusion = 0 \<or>
           which_breakpoint = 2 \<and> discordant_mates fusion + split_reads1 fusion = 0)
      | BLACKLIST_SPLIT_READ_ANY \<Rightarrow> discordant_mates fusion = 0
      | BLACKLIST_DISCORDANT_MATES \<Rightarrow> split_reads1 fusion + split_reads2 fusion = 0
      | BLACKLIST_READ_THROUGH \<Rightarrow> is_read_through fusion
      | BLACKLIST_LOW_SUPPORT \<Rightarrow> evalue fusion > evalue_cutoff
      | BLACKLIST_FILTER_SPLICED \<Rightarrow>
          evalue fusion > evalue_cutoff \<and> spliced1 fusion \<and> spliced2 fusion
      | BLACKLIST_NOT_BOTH_SPLICED \<Rightarrow> (\<not> spliced1 fusion \<or> \<not> spliced2 fusion)
      | BLACKLIST_GENE \<Rightarrow>
          (which_breakpoint = 1 \<and> gene1 fusion = gene blacklist_item \<or>
           which_breakpoint = 2 \<and> gene2 fusion = gene blacklist_item)
      | BLACKLIST_POSITION \<Rightarrow>
          (let contig_b = (if which_breakpoint = 1 then contig1 fusion else contig2 fusion) in
           if contig_b \<noteq> contig blacklist_item then False
           else if strand_defined blacklist_item \<and> \<not> predicted_strands_ambiguous fusion \<and>
                   (if which_breakpoint = 1 then predicted_strand1 fusion
                    else predicted_strand2 fusion) \<noteq> strand blacklist_item then False
           else
             (let breakpoint = (if which_breakpoint = 1 then breakpoint1 fusion
                                else breakpoint2 fusion) in
              if breakpoint = start blacklist_item then True
              else if split_reads1 fusion + split_reads2 fusion = 0 then
                (let direction = (if which_breakpoint = 1 then direction1 fusion
                                  else direction2 fusion) in
                 if direction = DOWNSTREAM \<and> breakpoint \<le> start blacklist_item \<and>
                      breakpoint \<ge> int32 (start blacklist_item - max_mate_gap) \<or>
                    direction = UPSTREAM \<and> breakpoint \<ge> start blacklist_item \<and>
                      breakpoint \<le> int32 (start blacklist_item + max_mate_gap)
                 then True else False)
              else False))
      | BLACKLIST_RANGE \<Rightarrow>
          (let contig_b = (if which_breakpoint = 1 then contig1 fusion else contig2 fusion) in
           if contig_b \<noteq> contig blacklist_item then False
           else if strand_defined blacklist_item \<and> \<not> predicted_strands_ambiguous fusion \<and>
                   (if which_breakpoint = 1 then predicted_strand1 fusion
                    else predicted_strand2 fusion) \<noteq> strand blacklist_item then False
           else
             (let gene_b = (if which_breakpoint = 1 then gene1 fusion else gene2 fusion) in
              if overlapping_fraction (gene_start gene_b) (gene_end gene_b)
                   (start blacklist_item) (end_pos blacklist_item) > 1 / 2
              then True else False)))"

declare matches_blacklist_item.simps [simp del]

section \<open>Reading words and numbers from a string stream\<close>

text \<open>
  The part of \<^verbatim>\<open>std::istringstream\<close> that the parser relies on: the characters
  not yet read, and the two state bits. Assigning a new string with \<^verbatim>\<open>str\<close>
  replaces the characters and leaves the state bits as they are. An extraction on a
  stream that is not good sets \<open>failbit\<close> and reads nothing; otherwise it skips
  white space first, and sets \<open>eofbit\<close> when it reaches the end of the characters.
\<close>

record istringstream =
  rdbuf :: string
  eofbit :: bool
  failbit :: bool

definition new_istringstream :: istringstream where
  "new_istringstream = \<lparr>rdbuf = [], eofbit = False, failbit = False\<rparr>"

definition str_assign :: "istringstream \<Rightarrow> string \<Rightarrow> istringstream" where
  "str_assign iss s = iss\<lparr>rdbuf := s\<rparr>"

definition isspace_c :: "char \<Rightarrow> bool" where
  "isspace_c c = (c = CHR '' '' \<or> c = CHR 0x09 \<or> c = CHR 0x0A \<or> c = CHR 0x0B \<or>
                  c = CHR 0x0C \<or> c = CHR 0x0D)"

definition isdigit_c :: "char \<Rightarrow> bool" where
  "isdigit_c c = (48 \<le> (of_char c :: nat) \<and> (of_char c :: nat) \<le> 57)"

definition dec_value :: "string \<Rightarrow> int" where
  "dec_value ds = foldl (\<lambda>a c. 10 * a + (int (of_char c) - 48)) 0 ds"

text \<open>\<^verbatim>\<open>iss >> word\<close> for a \<^verbatim>\<open>std::string\<close>: \<open>None\<close> when nothing was extracted
  (the string variable then keeps its old value).\<close>

definition read_word :: "istringstream \<Rightarrow> istringstream \<times> string option" where
  "read_word iss =
     (if eofbit iss \<or> failbit iss then (iss\<lparr>failbit := True\<rparr>, None)
      else
        (let s = dropWhile isspace_c (rdbuf iss) in
         if s = [] then (iss\<lparr>rdbuf := [], eofbit := True, failbit := True\<rparr>, None)
         else
           (let rest = dropWhile (\<lambda>c. \<not> isspace_c c) s in
            (iss\<lparr>rdbuf := rest, eofbit := (rest = [])\<rparr>,
             Some (takeWhile (\<lambda>c. \<not> isspace_c c) s)))))"

text \<open>
  \<^verbatim>\<open>iss >> n\<close> for a \<^verbatim>\<open>position_t\<close>, a 32-bit \<^verbatim>\<open>int\<close>: an optional sign, then
  decimal digits, as many as there are. The extraction fails (\<open>None\<close>, with
  \<open>failbit\<close> set) when there is no digit or when the number does not fit the type.
\<close>

definition read_int :: "istringstream \<Rightarrow> istringstream \<times> int option" where
  "read_int iss =
     (if eofbit iss \<or> failbit iss then (iss\<lparr>failbit := True\<rparr>, None)
      else
        (let s = dropWhile isspace_c (rdbuf iss) in
         if s = [] then (iss\<lparr>rdbuf := [], eofbit := True, failbit := True\<rparr>, None)
         else
           (let negative = (hd s = CHR ''-'');
                s1 = (if hd s = CHR ''-'' \<or> hd s = CHR ''+'' then tl s else s);
                ds = takeWhile isdigit_c s1;
                rest = dropWhile isdigit_c s1;
                v = (if negative then - dec_value ds else dec_value ds)
            in
              if ds = [] \<or> v < INT_MIN \<or> v > INT_MAX
              then (iss\<lparr>rdbuf := rest, eofbit := (rest = []), failbit := True\<rparr>, None)
              else (iss\<lparr>rdbuf := rest, eofbit := (rest = [])\<rparr>, Some v))))"

section \<open>Parsing a range and a blacklist item\<close>

definition replace_char :: "char \<Rightarrow> char \<Rightarrow> string \<Rightarrow> string" where
  "replace_char old_c new_c s = map (\<lambda>c. if c = old_c then new_c else c) s"

definition warning :: "string \<Rightarrow> string" where
  "warning text = ''WARNING: unknown gene or malformed range: '' @ text"

text \<open>
  \<^verbatim>\<open>parse_range\<close>. The source returns \<^verbatim>\<open>false\<close> after writing a warning to
  \<^verbatim>\<open>cerr\<close>; the model returns that warning (\<open>Inl\<close>). On success it returns the
  item with the fields the source has assigned (\<open>Inr\<close>). The test for a range looks
  for \<^verbatim>\<open>-\<close> in the whole string, after the colons have been replaced, and then
  reads the string again from its beginning with the same stream.
\<close>

definition parse_range :: "string \<Rightarrow> (string \<rightharpoonup> contig_t) \<Rightarrow> blacklist_item_t \<Rightarrow> string + blacklist_item_t" where
  "parse_range range0 contigs blacklist_item =
     (let range1 = replace_char (CHR '':'') (CHR '' '') range0;
          iss1 = str_assign new_istringstream range1;
          (iss2, word) = read_word iss1;
          contig_name = (case word of None \<Rightarrow> [] | Some w \<Rightarrow> w)
      in
        if contig_name = [] then Inl (warning range1)
        else
          (let (item1, contig_name1) =
                 (if hd contig_name = CHR ''+'' then
                    (blacklist_item\<lparr>strand_defined := True, strand := FORWARD\<rparr>, tl contig_name)
                  else if hd contig_name = CHR ''-'' then
                    (blacklist_item\<lparr>strand_defined := True, strand := REVERSE\<rparr>, tl contig_name)
                  else (blacklist_item\<lparr>strand_defined := False\<rparr>, contig_name))
           in
             case contigs contig_name1 of
               None \<Rightarrow> Inl (warning range1)
             | Some c \<Rightarrow>
                 (let item2 = item1\<lparr>contig := c\<rparr> in
                  if CHR ''-'' \<in> set range1 then
                    (let range2 = replace_char (CHR ''-'') (CHR '' '') range1;
                         iss3 = str_assign iss2 range2;
                         (iss4, discarded) = read_word iss3;
                         (iss5, start_v) = read_int iss4
                     in
                       case start_v of
                         None \<Rightarrow> Inl (warning range2)
                       | Some s \<Rightarrow>
                           (let (iss6, end_v) = read_int iss5 in
                            case end_v of
                              None \<Rightarrow> Inl (warning range2)
                            | Some e \<Rightarrow>
                                Inr (item2\<lparr>start := int32 (s - 1), end_pos := int32 (e - 1)\<rparr>)))
                  else
                    (let (iss3, start_v) = read_int iss2 in
                     case start_v of
                       None \<Rightarrow> Inl (warning range1)
                     | Some s \<Rightarrow> Inr (item2\<lparr>start := int32 (s - 1), end_pos := int32 (s - 1)\<rparr>)))))"

text \<open>\<^verbatim>\<open>parse_blacklist_item\<close>: keywords first when they are allowed, then gene
  names, then ranges.\<close>

definition keyword_type :: "string \<Rightarrow> blacklist_item_type_t option" where
  "keyword_type text =
     (if text = ''any'' then Some BLACKLIST_ANY
      else if text = ''split_read_donor'' then Some BLACKLIST_SPLIT_READ_DONOR
      else if text = ''split_read_acceptor'' then Some BLACKLIST_SPLIT_READ_ACCEPTOR
      else if text = ''split_read_any'' then Some BLACKLIST_SPLIT_READ_ANY
      else if text = ''discordant_mates'' then Some BLACKLIST_DISCORDANT_MATES
      else if text = ''read_through'' then Some BLACKLIST_READ_THROUGH
      else if text = ''low_support'' then Some BLACKLIST_LOW_SUPPORT
      else if text = ''filter_spliced'' then Some BLACKLIST_FILTER_SPLICED
      else if text = ''not_both_spliced'' then Some BLACKLIST_NOT_BOTH_SPLICED
      else None)"

definition parse_blacklist_item :: "string \<Rightarrow> blacklist_item_t \<Rightarrow> (string \<rightharpoonup> contig_t) \<Rightarrow> (string \<rightharpoonup> gene_t) \<Rightarrow> bool \<Rightarrow> string + blacklist_item_t" where
  "parse_blacklist_item text blacklist_item contigs genes allow_keyword =
     (case (if allow_keyword then keyword_type text else None) of
        Some t \<Rightarrow> Inr (blacklist_item\<lparr>item_type := t\<rparr>)
      | None \<Rightarrow>
          (case genes text of
             Some g \<Rightarrow>
               Inr (blacklist_item\<lparr>item_type := BLACKLIST_GENE, gene := g,
                      contig := gene_contig g, start := gene_start g, end_pos := gene_end g\<rparr>)
           | None \<Rightarrow>
               (case parse_range text contigs blacklist_item of
                  Inr item \<Rightarrow>
                    Inr (item\<lparr>item_type := (if start item = end_pos item
                                               then BLACKLIST_POSITION else BLACKLIST_RANGE)\<rparr>)
                | Inl w \<Rightarrow> Inl w)))"

section \<open>The index of fusions by coordinate\<close>

text \<open>
  Division of two \<^verbatim>\<open>int\<close>s truncates towards zero in C++, where \<open>div\<close> rounds
  down; the two agree on operands that are not negative.
\<close>

definition c_div :: "int \<Rightarrow> int \<Rightarrow> int" where
  "c_div a b = sgn a * sgn b * (\<bar>a\<bar> div \<bar>b\<bar>)"

definition bucket_size :: int where
  "bucket_size = 100000"

type_synonym index_key = "contig_t \<times> position_t"

text \<open>
  The \<^verbatim>\<open>for\<close> loop of \<^verbatim>\<open>get_index_keys_from_range\<close>: \<open>position\<close> runs up to
  \<open>bound\<close>, the value of the loop's bound, and each round appends one key. Both are
  quotients of a 32-bit integer by 100000, at most 21474, so the increment of
  \<open>position\<close> cannot overflow and is left as it is.
\<close>

function index_keys_loop :: "contig_t \<Rightarrow> position_t \<Rightarrow> position_t \<Rightarrow> index_key list \<Rightarrow> index_key list" where
  "index_keys_loop contig_v position bound index_keys =
     (if position \<le> bound
      then index_keys_loop contig_v (position + 1) bound
             (index_keys @ [(contig_v, int32 (position * bucket_size))])
      else index_keys)"
  by pat_completeness auto
termination
  by (relation "measure (\<lambda>(c, position, bound, ks). nat (bound + 1 - position))") auto

declare index_keys_loop.simps [simp del]

definition get_index_keys_from_range :: "contig_t \<Rightarrow> position_t \<Rightarrow> position_t \<Rightarrow> index_key list \<Rightarrow> index_key list" where
  "get_index_keys_from_range contig_v start_v end_v index_keys =
     index_keys_loop contig_v (c_div start_v bucket_size)
       (c_div (int32 (int32 (end_v + bucket_size) - 1)) bucket_size) index_keys"

text \<open>
  The fusions live in a container that the function updates in place; the model keeps
  them in a list, and a \<^verbatim>\<open>fusion_t*\<close> is a position in that list. The index
  \<^verbatim>\<open>fusions_by_coordinate\<close> maps a key to a \<^verbatim>\<open>std::set\<close> of such pointers, kept
  here as a list without repetition in increasing order, the order in which the set
  is traversed.
\<close>

type_synonym fusion_index = "index_key \<rightharpoonup> nat list"

definition set_insert :: "nat \<Rightarrow> nat list \<Rightarrow> nat list" where
  "set_insert p ps = (if p \<in> set ps then ps else insort p ps)"

fun index_insert :: "index_key list \<Rightarrow> nat \<Rightarrow> fusion_index \<Rightarrow> fusion_index" where
  "index_insert [] p idx = idx"
| "index_insert (k # ks) p idx =
     index_insert ks p (idx(k \<mapsto> set_insert p (case idx k of None \<Rightarrow> [] | Some b \<Rightarrow> b)))"

definition fusion_index_keys :: "fusion_t \<Rightarrow> index_key list" where
  "fusion_index_keys f =
     get_index_keys_from_range (contig2 f) (gene_start (gene2 f)) (gene_end (gene2 f))
       (get_index_keys_from_range (contig1 f) (gene_start (gene1 f)) (gene_end (gene1 f))
          (get_index_keys_from_range (contig2 f) (breakpoint2 f) (breakpoint2 f)
             (get_index_keys_from_range (contig1 f) (breakpoint1 f) (breakpoint1 f) [])))"

text \<open>The first loop of \<^verbatim>\<open>filter_blacklisted_ranges\<close>, over the pointers \<open>ps\<close> to the
  fusions still to be visited.\<close>

fun index_fusions :: "fusion_t list \<Rightarrow> nat list \<Rightarrow> fusion_index \<Rightarrow> fusion_index" where
  "index_fusions fs [] idx = idx"
| "index_fusions fs (p # ps) idx =
     (if filter_ptr (fs ! p) \<noteq> None \<and> closest_genomic_breakpoint1 (fs ! p) < 0
      then index_fusions fs ps idx
      else index_fusions fs ps (index_insert (fusion_index_keys (fs ! p)) p idx))"

section \<open>Filtering\<close>

definition blacklist_filter :: string where
  "blacklist_filter = ''blacklist''"

text \<open>The condition under which a blacklist line removes a fusion: both items match,
  one breakpoint each, in either order.\<close>

definition line_matches :: "blacklist_item_t \<Rightarrow> blacklist_item_t \<Rightarrow> fusion_t \<Rightarrow> rat \<Rightarrow> int \<Rightarrow> bool" where
  "line_matches item1 item2 fusion evalue_cutoff max_mate_gap =
     (matches_blacklist_item item1 fusion 1 evalue_cutoff max_mate_gap \<and>
      matches_blacklist_item item2 fusion 2 evalue_cutoff max_mate_gap \<or>
      matches_blacklist_item item1 fusion 2 evalue_cutoff max_mate_gap \<and>
      matches_blacklist_item item2 fusion 1 evalue_cutoff max_mate_gap)"

text \<open>The innermost loop, over one set of the index: a fusion that matches gets the
  filter and is erased from the set, any other stays. The result is the set that is
  left and the fusions.\<close>

fun scan_bucket :: "blacklist_item_t \<Rightarrow> blacklist_item_t \<Rightarrow> rat \<Rightarrow> int \<Rightarrow> nat list \<Rightarrow> fusion_t list \<Rightarrow> nat list \<times> fusion_t list" where
  "scan_bucket item1 item2 evalue_cutoff max_mate_gap [] fs = ([], fs)"
| "scan_bucket item1 item2 evalue_cutoff max_mate_gap (p # ps) fs =
     (if line_matches item1 item2 (fs ! p) evalue_cutoff max_mate_gap
      then scan_bucket item1 item2 evalue_cutoff max_mate_gap ps
             (fs[p := (fs ! p)\<lparr>filter_ptr := Some blacklist_filter\<rparr>])
      else
        (let (ps', fs') = scan_bucket item1 item2 evalue_cutoff max_mate_gap ps fs
         in (p # ps', fs')))"

text \<open>The loop over the index keys of one line.\<close>

fun scan_keys :: "blacklist_item_t \<Rightarrow> blacklist_item_t \<Rightarrow> rat \<Rightarrow> int \<Rightarrow> index_key list \<Rightarrow> fusion_t list \<Rightarrow> fusion_index \<Rightarrow> fusion_t list \<times> fusion_index" where
  "scan_keys item1 item2 evalue_cutoff max_mate_gap [] fs idx = (fs, idx)"
| "scan_keys item1 item2 evalue_cutoff max_mate_gap (k # ks) fs idx =
     (case idx k of
        None \<Rightarrow> scan_keys item1 item2 evalue_cutoff max_mate_gap ks fs idx
      | Some b \<Rightarrow>
          (let (b', fs') = scan_bucket item1 item2 evalue_cutoff max_mate_gap b fs
           in scan_keys item1 item2 evalue_cutoff max_mate_gap ks fs' (idx(k \<mapsto> b'))))"

text \<open>
  What the function holds while it reads the blacklist: the fusions, the index, and
  what it has written to \<^verbatim>\<open>cerr\<close>.
\<close>

record filter_state =
  fusions :: "fusion_t list"
  fusions_by_coordinate :: fusion_index
  cerr :: "string list"

text \<open>\<^verbatim>\<open>blacklist_item_t item1, item2;\<close> declares the two items without giving their
  fields a value. The parser assigns every field that is read later for the type it
  sets; the fields below stand for the ones it has left alone.\<close>

definition unassigned_item :: blacklist_item_t where
  "unassigned_item =
     \<lparr>item_type = BLACKLIST_RANGE, strand_defined = False, strand = FORWARD, contig = 0,
      start = 0, end_pos = 0,
      gene = \<lparr>gene_id = 0, gene_contig = 0, gene_start = 0, gene_end = 0\<rparr>\<rparr>"

text \<open>\<^verbatim>\<open>iss >> range1 >> range2\<close> on a stream over the line; a word that is not there
  leaves its string empty.\<close>

definition split_line :: "string \<Rightarrow> string \<times> string" where
  "split_line line =
     (let (iss1, w1) = read_word (str_assign new_istringstream line);
          (iss2, w2) = read_word iss1
      in (case w1 of None \<Rightarrow> [] | Some w \<Rightarrow> w, case w2 of None \<Rightarrow> [] | Some w \<Rightarrow> w))"

definition has_coordinates :: "blacklist_item_t \<Rightarrow> bool" where
  "has_coordinates item =
     (item_type item = BLACKLIST_POSITION \<or> item_type item = BLACKLIST_RANGE \<or>
      item_type item = BLACKLIST_GENE)"

text \<open>The body of the \<^verbatim>\<open>while\<close> loop, for one line of the blacklist.\<close>

definition process_line :: "(string \<rightharpoonup> contig_t) \<Rightarrow> (string \<rightharpoonup> gene_t) \<Rightarrow> rat \<Rightarrow> int \<Rightarrow> string \<Rightarrow> filter_state \<Rightarrow> filter_state" where
  "process_line contigs genes evalue_cutoff max_mate_gap line st =
     (if line = [] \<or> hd line = CHR ''#'' then st
      else
        (let (range1, range2) = split_line line in
         case parse_blacklist_item range1 unassigned_item contigs genes False of
           Inl w \<Rightarrow> st\<lparr>cerr := cerr st @ [w]\<rparr>
         | Inr item1 \<Rightarrow>
             (case parse_blacklist_item range2 unassigned_item contigs genes True of
                Inl w \<Rightarrow> st\<lparr>cerr := cerr st @ [w]\<rparr>
              | Inr item2 \<Rightarrow>
                  (let keys1 =
                         (if has_coordinates item1 then
                            get_index_keys_from_range (contig item1)
                              (int32 (start item1 - max_mate_gap))
                              (int32 (end_pos item1 + max_mate_gap)) []
                          else []);
                       keys2 =
                         (if has_coordinates item2 then
                            get_index_keys_from_range (contig item2)
                              (int32 (start item2 - max_mate_gap))
                              (int32 (end_pos item2 + max_mate_gap)) keys1
                          else keys1);
                       (fs', idx') =
                         scan_keys item1 item2 evalue_cutoff max_mate_gap keys2
                           (fusions st) (fusions_by_coordinate st)
                   in st\<lparr>fusions := fs', fusions_by_coordinate := idx'\<rparr>))))"

fun process_lines :: "(string \<rightharpoonup> contig_t) \<Rightarrow> (string \<rightharpoonup> gene_t) \<Rightarrow> rat \<Rightarrow> int \<Rightarrow> string list \<Rightarrow> filter_state \<Rightarrow> filter_state" where
  "process_lines contigs genes evalue_cutoff max_mate_gap [] st = st"
| "process_lines contigs genes evalue_cutoff max_mate_gap (line # rest) st =
     process_lines contigs genes evalue_cutoff max_mate_gap rest
       (process_line contigs genes evalue_cutoff max_mate_gap line st)"

definition count_remaining :: "fusion_t list \<Rightarrow> nat" where
  "count_remaining fs = length (filter (\<lambda>f. filter_ptr f = None) fs)"

text \<open>
  \<^verbatim>\<open>filter_blacklisted_ranges\<close>, on the lines of the blacklist file. The result is
  the number the function returns, the fusions as it leaves them, and the warnings it
  has written.
\<close>

definition filter_blacklisted_ranges :: "fusion_t list \<Rightarrow> string list \<Rightarrow> (string \<rightharpoonup> contig_t) \<Rightarrow> (string \<rightharpoonup> gene_t) \<Rightarrow> rat \<Rightarrow> int \<Rightarrow> nat \<times> fusion_t list \<times> string list" where
  "filter_blacklisted_ranges fs blacklist contigs genes evalue_cutoff max_mate_gap =
     (let st0 = \<lparr>fusions = fs,
                 fusions_by_coordinate = index_fusions fs [0..<length fs] Map.empty,
                 cerr = []\<rparr>;
          st = process_lines contigs genes evalue_cutoff max_mate_gap blacklist st0
      in (count_remaining (fusions st), fusions st, cerr st))"

section \<open>The run as a sequence of scans\<close>

text \<open>
  The definitions of this section serve the proofs. \<open>core\<close> is a fusion without its
  filter, \<open>bucket\<close> the set that the index holds for a key (empty when the key is not
  in the index), and \<open>eligible\<close> the negation of the test that lets the first loop
  skip a fusion.
\<close>

definition core :: "fusion_t \<Rightarrow> fusion_t" where
  "core f = f\<lparr>filter_ptr := None\<rparr>"

definition bucket :: "fusion_index \<Rightarrow> index_key \<Rightarrow> nat list" where
  "bucket idx k = (case idx k of None \<Rightarrow> [] | Some b \<Rightarrow> b)"

definition eligible :: "fusion_t \<Rightarrow> bool" where
  "eligible f = (filter_ptr f = None \<or> 0 \<le> closest_genomic_breakpoint1 f)"

text \<open>
  The parsing part of \<^verbatim>\<open>process_line\<close>: the two items of a line, or \<open>None\<close> for a
  comment and for a line with a token that does not resolve. \<open>line_keys\<close> are the
  index keys the line then looks up.
\<close>

definition parse_line :: "(string \<rightharpoonup> contig_t) \<Rightarrow> (string \<rightharpoonup> gene_t) \<Rightarrow> string \<Rightarrow> (blacklist_item_t \<times> blacklist_item_t) option" where
  "parse_line contigs genes line =
     (if line = [] \<or> hd line = CHR ''#'' then None
      else
        (case parse_blacklist_item (fst (split_line line)) unassigned_item contigs genes False of
           Inl w \<Rightarrow> None
         | Inr item1 \<Rightarrow>
             (case parse_blacklist_item (snd (split_line line)) unassigned_item contigs genes True of
                Inl w \<Rightarrow> None
              | Inr item2 \<Rightarrow> Some (item1, item2))))"

definition line_keys :: "int \<Rightarrow> blacklist_item_t \<Rightarrow> blacklist_item_t \<Rightarrow> index_key list" where
  "line_keys max_mate_gap item1 item2 =
     (let keys1 =
            (if has_coordinates item1 then
               get_index_keys_from_range (contig item1)
                 (int32 (start item1 - max_mate_gap)) (int32 (end_pos item1 + max_mate_gap)) []
             else [])
      in if has_coordinates item2 then
           get_index_keys_from_range (contig item2)
             (int32 (start item2 - max_mate_gap)) (int32 (end_pos item2 + max_mate_gap)) keys1
         else keys1)"

text \<open>
  One round of the loop over the index keys looks up one key and scans its set with
  the two items of the line. \<open>run_steps\<close> performs a list of such rounds; the
  loops of \<^verbatim>\<open>filter_blacklisted_ranges\<close> perform the rounds \<open>blacklist_steps\<close> of the
  lines of the blacklist, in order. \<open>condemned\<close> says that a round of the list finds
  the fusion \<open>i\<close> in the index it starts from, with items that match it.
\<close>

type_synonym scan_step = "index_key \<times> blacklist_item_t \<times> blacklist_item_t"

fun run_steps :: "rat \<Rightarrow> int \<Rightarrow> scan_step list \<Rightarrow> fusion_t list \<Rightarrow> fusion_index \<Rightarrow> fusion_t list \<times> fusion_index" where
  "run_steps ec gap [] fs idx = (fs, idx)"
| "run_steps ec gap ((k, item1, item2) # steps) fs idx =
     (case idx k of
        None \<Rightarrow> run_steps ec gap steps fs idx
      | Some b \<Rightarrow>
          (let (b', fs') = scan_bucket item1 item2 ec gap b fs
           in run_steps ec gap steps fs' (idx(k \<mapsto> b'))))"

definition line_steps :: "(string \<rightharpoonup> contig_t) \<Rightarrow> (string \<rightharpoonup> gene_t) \<Rightarrow> int \<Rightarrow> string \<Rightarrow> scan_step list" where
  "line_steps contigs genes gap line =
     (case parse_line contigs genes line of
        None \<Rightarrow> []
      | Some (item1, item2) \<Rightarrow> map (\<lambda>k. (k, item1, item2)) (line_keys gap item1 item2))"

definition condemned :: "rat \<Rightarrow> int \<Rightarrow> scan_step list \<Rightarrow> fusion_index \<Rightarrow> fusion_t \<Rightarrow> nat \<Rightarrow> bool" where
  "condemned ec gap steps idx f i =
     list_ex (\<lambda>(k, item1, item2). i \<in> set (bucket idx k) \<and> line_matches item1 item2 f ec gap) steps"

definition built_index :: "fusion_t list \<Rightarrow> fusion_index" where
  "built_index fs = index_fusions fs [0..<length fs] Map.empty"

definition blacklist_steps :: "(string \<rightharpoonup> contig_t) \<Rightarrow> (string \<rightharpoonup> gene_t) \<Rightarrow> int \<Rightarrow> string list \<Rightarrow> scan_step list" where
  "blacklist_steps contigs genes gap blacklist = concat (map (line_steps contigs genes gap) blacklist)"

text \<open>The two results of \<^verbatim>\<open>filter_blacklisted_ranges\<close> that a caller sees: the
  number it returns and the fusions it leaves.\<close>

definition remaining_after :: "fusion_t list \<Rightarrow> string list \<Rightarrow> (string \<rightharpoonup> contig_t) \<Rightarrow> (string \<rightharpoonup> gene_t) \<Rightarrow> rat \<Rightarrow> int \<Rightarrow> nat" where
  "remaining_after fs blacklist contigs genes ec gap =
     fst (filter_blacklisted_ranges fs blacklist contigs genes ec gap)"

definition fusions_after :: "fusion_t list \<Rightarrow> string list \<Rightarrow> (string \<rightharpoonup> contig_t) \<Rightarrow> (string \<rightharpoonup> gene_t) \<Rightarrow> rat \<Rightarrow> int \<Rightarrow> fusion_t list" where
  "fusions_after fs blacklist contigs genes ec gap =
     fst (snd (filter_blacklisted_ranges fs blacklist contigs genes ec gap))"

text \<open>A line of the blacklist resolves, looks up a key under which the fusion is
  indexed, and its items match the fusion.\<close>

definition hit_by_blacklist :: "(string \<rightharpoonup> contig_t) \<Rightarrow> (string \<rightharpoonup> gene_t) \<Rightarrow> rat \<Rightarrow> int \<Rightarrow> string list \<Rightarrow> fusion_t \<Rightarrow> bool" where
  "hit_by_blacklist contigs genes ec gap blacklist f =
     list_ex (\<lambda>line.
        case parse_line contigs genes line of
          None \<Rightarrow> False
        | Some (item1, item2) \<Rightarrow>
            list_ex (\<lambda>k. k \<in> set (fusion_index_keys f)) (line_keys gap item1 item2) \<and>
            line_matches item1 item2 f ec gap) blacklist"

section \<open>Tokens and sample inputs\<close>

text \<open>
  A contig name that the tokens of a blacklist line can carry without being cut: it
  is not empty, has no white space, no colon and no hyphen, and does not begin with a
  plus sign. A number is a non-empty string of decimal digits whose value fits
  \<^verbatim>\<open>position_t\<close>.
\<close>

definition plain_contig_name :: "string \<Rightarrow> bool" where
  "plain_contig_name c =
     (c \<noteq> [] \<and> hd c \<noteq> CHR ''+'' \<and>
      list_all (\<lambda>ch. \<not> isspace_c ch \<and> ch \<noteq> CHR '':'' \<and> ch \<noteq> CHR ''-'') c)"

definition number_text :: "string \<Rightarrow> bool" where
  "number_text ds = (ds \<noteq> [] \<and> list_all isdigit_c ds \<and> dec_value ds \<le> INT_MAX)"

text \<open>Inputs on which the theorems below are evaluated.\<close>

definition gene_a :: gene_t where
  "gene_a = \<lparr>gene_id = 1, gene_contig = 1, gene_start = 900, gene_end = 1100\<rparr>"

definition gene_b :: gene_t where
  "gene_b = \<lparr>gene_id = 2, gene_contig = 2, gene_start = 5000, gene_end = 6000\<rparr>"

definition gene_10_17 :: gene_t where
  "gene_10_17 = \<lparr>gene_id = 3, gene_contig = 1, gene_start = 10, gene_end = 17\<rparr>"

definition gene_100_103 :: gene_t where
  "gene_100_103 = \<lparr>gene_id = 4, gene_contig = 1, gene_start = 100, gene_end = 103\<rparr>"

definition sample_fusion :: fusion_t where
  "sample_fusion =
     \<lparr>contig1 = 1, contig2 = 2, breakpoint1 = 1000, breakpoint2 = 5500,
      predicted_strand1 = FORWARD, predicted_strand2 = REVERSE,
      predicted_strands_ambiguous = False,
      direction1 = DOWNSTREAM, direction2 = UPSTREAM, gene1 = gene_a, gene2 = gene_b,
      spliced1 = False, spliced2 = False, split_reads1 = 0, split_reads2 = 0,
      discordant_mates = 3, evalue = 0, is_read_through = False,
      closest_genomic_breakpoint1 = - 1, filter_ptr = None\<rparr>"

definition position_item :: "contig_t \<Rightarrow> position_t \<Rightarrow> blacklist_item_t" where
  "position_item c p =
     unassigned_item\<lparr>item_type := BLACKLIST_POSITION, strand_defined := False,
       contig := c, start := p, end_pos := p\<rparr>"

definition range_item :: "contig_t \<Rightarrow> position_t \<Rightarrow> position_t \<Rightarrow> blacklist_item_t" where
  "range_item c s e =
     unassigned_item\<lparr>item_type := BLACKLIST_RANGE, strand_defined := False,
       contig := c, start := s, end_pos := e\<rparr>"

definition sample_contigs :: "string \<rightharpoonup> contig_t" where
  "sample_contigs =
     [''chr1'' \<mapsto> 1, ''chr2'' \<mapsto> 2, ''HLA-A'' \<mapsto> 7, ''alt:1'' \<mapsto> 8, ''+ctg'' \<mapsto> 9,
      ''chr-1'' \<mapsto> 10]"

definition sample_fusions :: "fusion_t list" where
  "sample_fusions =
     [sample_fusion,
      sample_fusion\<lparr>breakpoint1 := 7, closest_genomic_breakpoint1 := 12,
        filter_ptr := Some ''intronic''\<rparr>,
      sample_fusion\<lparr>filter_ptr := Some ''intronic''\<rparr>,
      sample_fusion\<lparr>breakpoint1 := 2000\<rparr>]"

definition sample_state :: filter_state where
  "sample_state =
     \<lparr>fusions = sample_fusions, fusions_by_coordinate = Map.empty, cerr = [''earlier'']\<rparr>"

definition sample_blacklist :: "string list" where
  "sample_blacklist = [''# comment'', ''chr1:1001 any'', ''chrX:5 any'', ''chr1:8 any'']"

text \<open>A fusion near the upper end of \<^verbatim>\<open>position_t\<close>, with its filter set by an earlier
  stage and a genomic breakpoint.\<close>

definition far_gene :: gene_t where
  "far_gene = \<lparr>gene_id = 5, gene_contig = 1, gene_start = 2147383649, gene_end = 2147383700\<rparr>"

definition far_fusion :: fusion_t where
  "far_fusion =
     sample_fusion\<lparr>contig2 := 1, breakpoint1 := 2147383649, breakpoint2 := 2147383660,
       gene1 := far_gene, gene2 := far_gene, closest_genomic_breakpoint1 := 2147383600,
       filter_ptr := Some ''intronic''\<rparr>"

section \<open>Machine integers: lemmas\<close>

lemma int32_id: "fits_int x \<Longrightarrow> int32 x = x"
  by (simp add: fits_int_def INT_MIN_def INT_MAX_def int32_def)

lemma int32_fits: "fits_int (int32 x)"
proof -
  have "0 \<le> (x + 2147483648) mod 4294967296" "(x + 2147483648) mod 4294967296 < 4294967296"
    by simp_all
  then show ?thesis
    by (simp add: fits_int_def INT_MIN_def INT_MAX_def int32_def)
qed

lemma int32_add_left: "int32 (int32 x + y) = int32 (x + y)"
proof -
  have a: "int32 x + y + 2147483648 = (x + 2147483648) mod 4294967296 + y"
    by (simp add: int32_def)
  have "((x + 2147483648) mod 4294967296 + y) mod 4294967296 =
          (x + 2147483648 + y) mod 4294967296"
    by (rule mod_add_left_eq)
  also have "x + 2147483648 + y = x + y + 2147483648"
    by simp
  finally have "(int32 x + y + 2147483648) mod 4294967296 = (x + y + 2147483648) mod 4294967296"
    by (simp only: a)
  then show ?thesis
    unfolding int32_def [of "int32 x + y"] int32_def [of "x + y"] by (simp only:)
qed

lemma int32_diff_left: "int32 (int32 x - y) = int32 (x - y)"
  using int32_add_left [of x "- y"] by simp

section \<open>Reading a token: lemmas\<close>

lemma isdigit_c_plain:
  "isdigit_c d \<Longrightarrow> \<not> isspace_c d \<and> d \<noteq> CHR '':'' \<and> d \<noteq> CHR ''-'' \<and> d \<noteq> CHR ''+''"
  by (auto simp add: isdigit_c_def isspace_c_def)

lemma foldl_dec_nonneg:
  "0 \<le> a \<Longrightarrow> list_all isdigit_c ds \<Longrightarrow>
     0 \<le> foldl (\<lambda>a c. 10 * a + (int (of_char c) - 48)) a ds"
  by (induction ds arbitrary: a) (auto simp add: isdigit_c_def)

lemma dec_value_nonneg: "list_all isdigit_c ds \<Longrightarrow> 0 \<le> dec_value ds"
  by (simp add: dec_value_def foldl_dec_nonneg)

lemma read_word_next:
  assumes "\<not> eofbit iss" "\<not> failbit iss"
    and "rdbuf iss = ws @ w @ rest"
    and "list_all isspace_c ws"
    and "w \<noteq> []" "list_all (\<lambda>c. \<not> isspace_c c) w"
    and "rest = [] \<or> isspace_c (hd rest)"
  shows "read_word iss = (iss\<lparr>rdbuf := rest, eofbit := (rest = [])\<rparr>, Some w)"
proof -
  have d1: "dropWhile isspace_c (ws @ w @ rest) = w @ rest"
    using assms(4,5,6) by (cases w) (auto simp add: dropWhile_append list_all_iff)
  have t: "takeWhile (\<lambda>c. \<not> isspace_c c) (w @ rest) = w"
    using assms(6,7) by (cases rest) (auto simp add: takeWhile_append list_all_iff)
  have d2: "dropWhile (\<lambda>c. \<not> isspace_c c) (w @ rest) = rest"
    using assms(6,7) by (cases rest) (auto simp add: dropWhile_append list_all_iff)
  show ?thesis
    using assms(1,2,3,5) by (simp add: read_word_def d1 t d2 Let_def)
qed

lemma read_int_next:
  assumes "\<not> eofbit iss" "\<not> failbit iss"
    and "rdbuf iss = ws @ ds @ rest"
    and "list_all isspace_c ws"
    and "number_text ds"
    and "rest = [] \<or> \<not> isdigit_c (hd rest)"
  shows "read_int iss = (iss\<lparr>rdbuf := rest, eofbit := (rest = [])\<rparr>, Some (dec_value ds))"
proof -
  from assms(5) have ne: "ds \<noteq> []" and dg: "list_all isdigit_c ds" and le: "dec_value ds \<le> INT_MAX"
    by (simp_all add: number_text_def)
  from ne obtain d ds' where ds: "ds = d # ds'" by (cases ds) auto
  with dg have d: "isdigit_c d" by simp
  have nsp: "\<forall>c\<in>set ds. \<not> isspace_c c" using dg isdigit_c_plain by (auto simp add: list_all_iff)
  have d1: "dropWhile isspace_c (ws @ ds @ rest) = ds @ rest"
    using assms(4) d ds isdigit_c_plain by (auto simp add: dropWhile_append list_all_iff)
  have hd1: "hd (ds @ rest) \<noteq> CHR ''-''" "hd (ds @ rest) \<noteq> CHR ''+''"
    using d ds isdigit_c_plain by auto
  have t: "takeWhile isdigit_c (ds @ rest) = ds"
    using dg assms(6) by (cases rest) (auto simp add: takeWhile_append list_all_iff)
  have d2: "dropWhile isdigit_c (ds @ rest) = rest"
    using dg assms(6) by (cases rest) (auto simp add: dropWhile_append list_all_iff)
  have ge: "\<not> dec_value ds < INT_MIN"
    using dec_value_nonneg [OF dg] by (simp add: INT_MIN_def)
  show ?thesis
    using assms(1,2,3) ne le ge hd1 by (simp add: read_int_def d1 t d2 Let_def)
qed

lemma replace_char_append: "replace_char a b (xs @ ys) = replace_char a b xs @ replace_char a b ys"
  by (simp add: replace_char_def)

lemma replace_char_Cons: "replace_char a b (x # xs) = (if x = a then b else x) # replace_char a b xs"
  by (simp add: replace_char_def)

lemma replace_char_id: "a \<notin> set xs \<Longrightarrow> replace_char a b xs = xs"
  by (induction xs) (auto simp add: replace_char_def)

lemma plain_contig_nameD:
  assumes "plain_contig_name c"
  shows "c \<noteq> []" "hd c \<noteq> CHR ''+''" "hd c \<noteq> CHR ''-''"
    "CHR '':'' \<notin> set c" "CHR ''-'' \<notin> set c" "list_all (\<lambda>ch. \<not> isspace_c ch) c"
  using assms by (cases c; auto simp add: plain_contig_name_def list_all_iff)+

lemma number_textD:
  assumes "number_text ds"
  shows "ds \<noteq> []" "CHR '':'' \<notin> set ds" "CHR ''-'' \<notin> set ds" "\<not> isdigit_c (CHR ''-'')"
    "\<not> isdigit_c (CHR '' '')" "isspace_c (CHR '' '')" "hd ds \<noteq> CHR '' ''"
  using assms isdigit_c_plain by (cases ds; auto simp add: number_text_def list_all_iff isdigit_c_def isspace_c_def)+

lemma number_text_decrement:
  assumes "number_text ds"
  shows "int32 (dec_value ds - 1) = dec_value ds - 1"
proof -
  have "0 \<le> dec_value ds" "dec_value ds \<le> INT_MAX"
    using assms by (simp_all add: number_text_def dec_value_nonneg)
  then show ?thesis
    by (intro int32_id) (simp add: fits_int_def INT_MIN_def INT_MAX_def)
qed

lemma parse_position_plain:
  assumes c: "plain_contig_name c" and k: "contigs c = Some k" and n: "number_text ds"
  shows "parse_range (c @ CHR '':'' # ds) contigs item =
           Inr (item\<lparr>strand_defined := False, contig := k,
                      start := dec_value ds - 1, end_pos := dec_value ds - 1\<rparr>)"
proof -
  let ?r1 = "c @ CHR '' '' # ds"
  have r1: "replace_char (CHR '':'') (CHR '' '') (c @ CHR '':'' # ds) = ?r1"
    using plain_contig_nameD(4) [OF c] number_textD(2) [OF n]
    by (simp add: replace_char_append replace_char_Cons replace_char_id)
  let ?iss1 = "str_assign new_istringstream ?r1"
  let ?iss2 = "?iss1\<lparr>rdbuf := CHR '' '' # ds, eofbit := False\<rparr>"
  have w: "read_word ?iss1 = (?iss2, Some c)"
    using read_word_next [of ?iss1 "[]" c "CHR '' '' # ds"] plain_contig_nameD [OF c]
    by (simp add: str_assign_def new_istringstream_def isspace_c_def)
  have nodash: "CHR ''-'' \<notin> set ?r1"
    using plain_contig_nameD(5) [OF c] number_textD(3) [OF n] by simp
  have i: "read_int ?iss2 = (?iss2\<lparr>rdbuf := [], eofbit := True\<rparr>, Some (dec_value ds))"
    using read_int_next [of ?iss2 "[CHR '' '']" ds "[]"] n
    by (simp add: str_assign_def new_istringstream_def isspace_c_def)
  show ?thesis
    unfolding parse_range_def r1 Let_def w
    using plain_contig_nameD(1,2,3) [OF c] k nodash i
    by (simp add: number_text_decrement [OF n])
qed

lemma parse_interval_plain:
  assumes c: "plain_contig_name c" and k: "contigs c = Some k"
    and n1: "number_text ds1" and n2: "number_text ds2"
  shows "parse_range (c @ CHR '':'' # ds1 @ CHR ''-'' # ds2) contigs item =
           Inr (item\<lparr>strand_defined := False, contig := k,
                      start := dec_value ds1 - 1, end_pos := dec_value ds2 - 1\<rparr>)"
proof -
  let ?r1 = "c @ CHR '' '' # ds1 @ CHR ''-'' # ds2"
  let ?r2 = "c @ CHR '' '' # ds1 @ CHR '' '' # ds2"
  have r1: "replace_char (CHR '':'') (CHR '' '') (c @ CHR '':'' # ds1 @ CHR ''-'' # ds2) = ?r1"
    using plain_contig_nameD(4) [OF c] number_textD(2) [OF n1] number_textD(2) [OF n2]
    by (simp add: replace_char_append replace_char_Cons replace_char_id)
  have r2: "replace_char (CHR ''-'') (CHR '' '') ?r1 = ?r2"
    using plain_contig_nameD(5) [OF c] number_textD(3) [OF n1] number_textD(3) [OF n2]
    by (simp add: replace_char_append replace_char_Cons replace_char_id)
  let ?iss1 = "str_assign new_istringstream ?r1"
  let ?iss2 = "?iss1\<lparr>rdbuf := CHR '' '' # ds1 @ CHR ''-'' # ds2, eofbit := False\<rparr>"
  have w1: "read_word ?iss1 = (?iss2, Some c)"
    using read_word_next [of ?iss1 "[]" c "CHR '' '' # ds1 @ CHR ''-'' # ds2"]
      plain_contig_nameD [OF c]
    by (simp add: str_assign_def new_istringstream_def isspace_c_def)
  let ?iss3 = "str_assign ?iss2 ?r2"
  let ?iss4 = "?iss3\<lparr>rdbuf := CHR '' '' # ds1 @ CHR '' '' # ds2, eofbit := False\<rparr>"
  have w2: "read_word ?iss3 = (?iss4, Some c)"
    using read_word_next [of ?iss3 "[]" c "CHR '' '' # ds1 @ CHR '' '' # ds2"]
      plain_contig_nameD [OF c]
    by (simp add: str_assign_def new_istringstream_def isspace_c_def)
  let ?iss5 = "?iss4\<lparr>rdbuf := CHR '' '' # ds2, eofbit := False\<rparr>"
  have i1: "read_int ?iss4 = (?iss5, Some (dec_value ds1))"
    using read_int_next [of ?iss4 "[CHR '' '']" ds1 "CHR '' '' # ds2"] n1 number_textD(5) [OF n1]
    by (simp add: str_assign_def new_istringstream_def isspace_c_def)
  have i2: "read_int ?iss5 = (?iss5\<lparr>rdbuf := [], eofbit := True\<rparr>, Some (dec_value ds2))"
    using read_int_next [of ?iss5 "[CHR '' '']" ds2 "[]"] n2
    by (simp add: str_assign_def new_istringstream_def isspace_c_def)
  show ?thesis
    unfolding parse_range_def r1 Let_def w1
    using plain_contig_nameD(1,2,3) [OF c] k w2 i1 i2
    by (simp add: r2 number_text_decrement [OF n1] number_text_decrement [OF n2])
qed

lemma parse_position_forward:
  assumes c: "plain_contig_name c" and k: "contigs c = Some k" and n: "number_text ds"
  shows "parse_range (CHR ''+'' # c @ CHR '':'' # ds) contigs item =
           Inr (item\<lparr>strand_defined := True, strand := FORWARD, contig := k,
                      start := dec_value ds - 1, end_pos := dec_value ds - 1\<rparr>)"
proof -
  let ?r1 = "CHR ''+'' # c @ CHR '' '' # ds"
  have r1: "replace_char (CHR '':'') (CHR '' '') (CHR ''+'' # c @ CHR '':'' # ds) = ?r1"
    using plain_contig_nameD(4) [OF c] number_textD(2) [OF n]
    by (simp add: replace_char_append replace_char_Cons replace_char_id)
  let ?iss1 = "str_assign new_istringstream ?r1"
  let ?iss2 = "?iss1\<lparr>rdbuf := CHR '' '' # ds, eofbit := False\<rparr>"
  have w: "read_word ?iss1 = (?iss2, Some (CHR ''+'' # c))"
    using read_word_next [of ?iss1 "[]" "CHR ''+'' # c" "CHR '' '' # ds"] plain_contig_nameD [OF c]
    by (simp add: str_assign_def new_istringstream_def isspace_c_def)
  have nodash: "CHR ''-'' \<notin> set ?r1"
    using plain_contig_nameD(5) [OF c] number_textD(3) [OF n] by simp
  have i: "read_int ?iss2 = (?iss2\<lparr>rdbuf := [], eofbit := True\<rparr>, Some (dec_value ds))"
    using read_int_next [of ?iss2 "[CHR '' '']" ds "[]"] n
    by (simp add: str_assign_def new_istringstream_def isspace_c_def)
  show ?thesis
    unfolding parse_range_def r1 Let_def w
    using k nodash i by (simp add: number_text_decrement [OF n])
qed

lemma parse_position_reverse:
  assumes c: "plain_contig_name c" and k: "contigs c = Some k" and n: "number_text ds"
  shows "parse_range (CHR ''-'' # c @ CHR '':'' # ds) contigs item =
           Inl (warning (CHR '' '' # c @ CHR '' '' # ds))"
proof -
  let ?r1 = "CHR ''-'' # c @ CHR '' '' # ds"
  let ?r2 = "CHR '' '' # c @ CHR '' '' # ds"
  have r1: "replace_char (CHR '':'') (CHR '' '') (CHR ''-'' # c @ CHR '':'' # ds) = ?r1"
    using plain_contig_nameD(4) [OF c] number_textD(2) [OF n]
    by (simp add: replace_char_append replace_char_Cons replace_char_id)
  have r2: "replace_char (CHR ''-'') (CHR '' '') ?r1 = ?r2"
    using plain_contig_nameD(5) [OF c] number_textD(3) [OF n]
    by (simp add: replace_char_append replace_char_Cons replace_char_id)
  let ?iss1 = "str_assign new_istringstream ?r1"
  let ?iss2 = "?iss1\<lparr>rdbuf := CHR '' '' # ds, eofbit := False\<rparr>"
  have w1: "read_word ?iss1 = (?iss2, Some (CHR ''-'' # c))"
    using read_word_next [of ?iss1 "[]" "CHR ''-'' # c" "CHR '' '' # ds"] plain_contig_nameD [OF c]
    by (simp add: str_assign_def new_istringstream_def isspace_c_def)
  let ?iss3 = "str_assign ?iss2 ?r2"
  let ?iss4 = "?iss3\<lparr>rdbuf := CHR '' '' # ds, eofbit := False\<rparr>"
  have w2: "read_word ?iss3 = (?iss4, Some c)"
    using read_word_next [of ?iss3 "[CHR '' '']" c "CHR '' '' # ds"] plain_contig_nameD [OF c]
    by (simp add: str_assign_def new_istringstream_def isspace_c_def)
  let ?iss5 = "?iss4\<lparr>rdbuf := [], eofbit := True\<rparr>"
  have i1: "read_int ?iss4 = (?iss5, Some (dec_value ds))"
    using read_int_next [of ?iss4 "[CHR '' '']" ds "[]"] n
    by (simp add: str_assign_def new_istringstream_def isspace_c_def)
  have i2: "read_int ?iss5 = (?iss5\<lparr>failbit := True\<rparr>, None)"
    by (simp add: read_int_def)
  show ?thesis
    unfolding parse_range_def r1 Let_def w1
    using k w2 i1 i2 by (simp add: r2)
qed

section \<open>Index keys: lemmas\<close>

lemma index_keys_loop_eq:
  "index_keys_loop c p b ks = ks @ map (\<lambda>k. (c, int32 (k * bucket_size))) [p..b]"
proof (induction c p b ks rule: index_keys_loop.induct)
  case (1 c p b ks)
  show ?case
  proof (cases "p \<le> b")
    case True
    then have "[p..b] = p # [p + 1..b]" by (simp add: upto_rec1)
    with True 1 show ?thesis by (simp add: index_keys_loop.simps [of c p b ks])
  next
    case False
    then show ?thesis by (simp add: index_keys_loop.simps [of c p b ks])
  qed
qed

lemma c_div_nonneg: "0 \<le> a \<Longrightarrow> 0 < b \<Longrightarrow> c_div a b = a div b"
  by (cases "a = 0") (simp_all add: c_div_def)

lemma get_index_keys_from_range_eq:
  "get_index_keys_from_range c s e ks =
     ks @ map (\<lambda>k. (c, int32 (k * bucket_size)))
            [c_div s bucket_size..c_div (int32 (int32 (e + bucket_size) - 1)) bucket_size]"
  by (simp add: get_index_keys_from_range_def index_keys_loop_eq)

lemma loop_bound_in_range:
  assumes "INT_MIN \<le> e" and "e \<le> 2147383648"
  shows "int32 (int32 (e + bucket_size) - 1) = e + 99999"
proof -
  have "int32 (int32 (e + bucket_size) - 1) = int32 (e + 99999)"
    by (simp add: int32_diff_left bucket_size_def add.commute)
  also have "\<dots> = e + 99999"
    using assms by (intro int32_id) (simp add: fits_int_def INT_MIN_def INT_MAX_def)
  finally show ?thesis .
qed

lemma get_index_keys_in_range:
  assumes "0 \<le> s" and "s \<le> e" and "e \<le> 2147383648"
  shows "get_index_keys_from_range c s e ks =
           ks @ map (\<lambda>k. (c, k * 100000)) [s div 100000..(e + 99999) div 100000]"
proof -
  have b: "int32 (int32 (e + bucket_size) - 1) = e + 99999"
    using assms by (intro loop_bound_in_range) (simp_all add: INT_MIN_def)
  have lo: "c_div s bucket_size = s div 100000"
    using assms(1) by (simp add: c_div_nonneg bucket_size_def)
  have hi: "c_div (e + 99999) bucket_size = (e + 99999) div 100000"
    using assms(1,2) by (simp add: c_div_nonneg bucket_size_def)
  have top: "(e + 99999) div 100000 \<le> 21474"
  proof -
    have "(e + 99999) div 100000 \<le> 2147483647 div 100000"
      using assms(3) by (intro zdiv_mono1) simp_all
    then show ?thesis by simp
  qed
  have "int32 (k * bucket_size) = k * 100000"
    if "k \<in> set [s div 100000..(e + 99999) div 100000]" for k
  proof -
    have "0 \<le> s div 100000"
      using assms(1) by (simp add: pos_imp_zdiv_nonneg_iff)
    with that top have "0 \<le> k" "k \<le> 21474"
      by simp_all
    then have "fits_int (k * 100000)"
      by (simp add: fits_int_def INT_MIN_def INT_MAX_def)
    then show ?thesis
      by (simp add: int32_id bucket_size_def)
  qed
  then have "map (\<lambda>k. (c, int32 (k * bucket_size))) [s div 100000..(e + 99999) div 100000] =
               map (\<lambda>k. (c, k * 100000)) [s div 100000..(e + 99999) div 100000]"
    by (intro map_cong) simp_all
  then show ?thesis
    by (simp only: get_index_keys_from_range_eq b lo hi)
qed

lemma floor_bucket: "\<lfloor>(of_int s :: rat) / 100000\<rfloor> = s div 100000"
  using floor_divide_of_int_eq [of s 100000, where ?'a = rat] by simp

lemma ceiling_bucket: "\<lceil>(of_int e :: rat) / 100000\<rceil> = (e + 99999) div 100000"
proof -
  define q where "q = (e + 99999) div 100000"
  define r where "r = (e + 99999) mod 100000"
  have eq: "e + 99999 = 100000 * q + r"
    by (simp add: q_def r_def)
  have r: "0 \<le> r" "r < 100000"
    by (simp_all add: r_def)
  have up: "e \<le> 100000 * q"
    using eq r by linarith
  have "100000 * q - 100000 < e"
    using eq r by linarith
  then have low: "100000 * (q - 1) < e"
    by (simp add: algebra_simps)
  have "(of_int e :: rat) \<le> of_int (100000 * q)"
    using up by (simp only: of_int_le_iff)
  then have le: "(of_int e :: rat) / 100000 \<le> of_int q"
    by simp
  have "(of_int (100000 * (q - 1)) :: rat) < of_int e"
    using low by (simp only: of_int_less_iff)
  then have gt: "of_int q - 1 < (of_int e :: rat) / 100000"
    by simp
  from gt le have "\<lceil>(of_int e :: rat) / 100000\<rceil> = q"
    by (rule ceiling_unique)
  then show ?thesis by (simp add: q_def)
qed


section \<open>The run: lemmas\<close>

lemma matches_ignores_filter:
  "matches_blacklist_item item (f\<lparr>filter_ptr := x\<rparr>) wb ec gap = matches_blacklist_item item f wb ec gap"
  by (cases "item_type item"; simp add: matches_blacklist_item.simps)

lemma line_matches_ignores_filter:
  "line_matches item1 item2 (f\<lparr>filter_ptr := x\<rparr>) ec gap = line_matches item1 item2 f ec gap"
  by (simp add: line_matches_def matches_ignores_filter)

lemma line_matches_core:
  assumes "core f = core f'"
  shows "line_matches item1 item2 f ec gap = line_matches item1 item2 f' ec gap"
proof -
  have "line_matches item1 item2 f ec gap = line_matches item1 item2 (core f) ec gap"
    by (simp add: core_def line_matches_ignores_filter)
  also have "\<dots> = line_matches item1 item2 (core f') ec gap"
    by (simp add: assms)
  also have "\<dots> = line_matches item1 item2 f' ec gap"
    by (simp add: core_def line_matches_ignores_filter)
  finally show ?thesis .
qed

lemma fusion_index_keys_ignores_filter:
  "fusion_index_keys (f\<lparr>filter_ptr := x\<rparr>) = fusion_index_keys f"
  by (simp add: fusion_index_keys_def)

lemma fusion_index_keys_core:
  assumes "core f = core f'"
  shows "fusion_index_keys f = fusion_index_keys f'"
proof -
  have "fusion_index_keys f = fusion_index_keys (core f)"
    by (simp add: core_def fusion_index_keys_ignores_filter)
  also have "\<dots> = fusion_index_keys (core f')"
    by (simp add: assms)
  also have "\<dots> = fusion_index_keys f'"
    by (simp add: core_def fusion_index_keys_ignores_filter)
  finally show ?thesis .
qed

lemma core_cgb:
  assumes "core f = core f'"
  shows "closest_genomic_breakpoint1 f = closest_genomic_breakpoint1 f'"
proof -
  have "closest_genomic_breakpoint1 (core f) = closest_genomic_breakpoint1 (core f')"
    using assms by simp
  then show ?thesis by (simp add: core_def)
qed

lemma core_filter_eq:
  assumes "core f = core f'" and "filter_ptr f = filter_ptr f'"
  shows "f = f'"
proof -
  have "f = (core f)\<lparr>filter_ptr := filter_ptr f\<rparr>" by (simp add: core_def)
  also have "\<dots> = (core f')\<lparr>filter_ptr := filter_ptr f'\<rparr>" by (simp add: assms)
  also have "\<dots> = f'" by (simp add: core_def)
  finally show ?thesis .
qed

lemma core_tag: "core (f\<lparr>filter_ptr := x\<rparr>) = core f"
  by (simp add: core_def)

lemma scan_bucket_effect:
  assumes "scan_bucket item1 item2 ec gap ps fs = (ps', fs')"
  shows "length fs' = length fs \<and>
         (\<forall>i<length fs. core (fs' ! i) = core (fs ! i)) \<and>
         (\<forall>i<length fs. filter_ptr (fs' ! i) =
            (if i \<in> set ps \<and> line_matches item1 item2 (fs ! i) ec gap
             then Some blacklist_filter else filter_ptr (fs ! i))) \<and>
         ps' = filter (\<lambda>p. \<not> line_matches item1 item2 (fs ! p) ec gap) ps"
  using assms
proof (induction ps arbitrary: fs ps' fs')
  case Nil
  then show ?case by simp
next
  case (Cons p ps)
  let ?M = "\<lambda>f. line_matches item1 item2 f ec gap"
  show ?case
  proof (cases "?M (fs ! p)")
    case True
    let ?fs1 = "fs[p := (fs ! p)\<lparr>filter_ptr := Some blacklist_filter\<rparr>]"
    from Cons.prems True have run: "scan_bucket item1 item2 ec gap ps ?fs1 = (ps', fs')"
      by simp
    note ih = Cons.IH [OF run]
    have same: "?M (?fs1 ! q) = ?M (fs ! q)" for q
    proof (cases "q = p \<and> p < length fs")
      case True
      then show ?thesis by (simp add: line_matches_ignores_filter)
    next
      case False
      then show ?thesis by (cases "q = p") (simp_all add: list_update_beyond)
    qed
    have c: "core (?fs1 ! i) = core (fs ! i)" if "i < length fs" for i
      using that by (cases "i = p") (simp_all add: core_tag)
    have f: "filter_ptr (?fs1 ! i) = (if i = p then Some blacklist_filter else filter_ptr (fs ! i))"
      if "i < length fs" for i
      using that by (cases "i = p") simp_all
    have 1: "length fs' = length fs" using ih by simp
    have 2: "\<forall>i<length fs. core (fs' ! i) = core (fs ! i)"
      using ih c by simp
    have 3: "\<forall>i<length fs. filter_ptr (fs' ! i) =
            (if i \<in> set (p # ps) \<and> ?M (fs ! i) then Some blacklist_filter else filter_ptr (fs ! i))"
    proof (intro allI impI)
      fix i assume i: "i < length fs"
      then have "filter_ptr (fs' ! i) =
            (if i \<in> set ps \<and> ?M (?fs1 ! i) then Some blacklist_filter else filter_ptr (?fs1 ! i))"
        using ih by simp
      then show "filter_ptr (fs' ! i) =
            (if i \<in> set (p # ps) \<and> ?M (fs ! i) then Some blacklist_filter else filter_ptr (fs ! i))"
        using True i by (simp add: same f) 
    qed
    have 4: "ps' = filter (\<lambda>p. \<not> ?M (fs ! p)) (p # ps)"
      using ih True by (simp add: same)
    from 1 2 3 4 show ?thesis by blast
  next
    case False
    obtain ps1 fs1 where run: "scan_bucket item1 item2 ec gap ps fs = (ps1, fs1)"
      by (cases "scan_bucket item1 item2 ec gap ps fs") auto
    with Cons.prems False have res: "ps' = p # ps1" "fs' = fs1" by simp_all
    note ih = Cons.IH [OF run]
    have 3: "\<forall>i<length fs. filter_ptr (fs' ! i) =
            (if i \<in> set (p # ps) \<and> ?M (fs ! i) then Some blacklist_filter else filter_ptr (fs ! i))"
      using ih res False by auto
    have 4: "ps' = filter (\<lambda>p. \<not> ?M (fs ! p)) (p # ps)"
      using ih res False by simp
    from ih res 3 4 show ?thesis by blast
  qed
qed

lemma condemned_Nil: "condemned ec gap [] idx f i = False"
  by (simp add: condemned_def)

lemma condemned_Cons:
  "condemned ec gap ((k, item1, item2) # steps) idx f i =
     (i \<in> set (bucket idx k) \<and> line_matches item1 item2 f ec gap \<or>
      condemned ec gap steps idx f i)"
  by (simp add: condemned_def)

lemma condemned_append:
  "condemned ec gap (xs @ ys) idx f i =
     (condemned ec gap xs idx f i \<or> condemned ec gap ys idx f i)"
  by (simp add: condemned_def list_ex_iff) blast

lemma condemned_cong:
  assumes "core f = core f'"
    and "\<And>k. i \<in> set (bucket idx k) \<longleftrightarrow> i \<in> set (bucket idx' k)"
  shows "condemned ec gap steps idx f i = condemned ec gap steps idx' f' i"
proof (induction steps)
  case Nil
  show ?case by (simp add: condemned_Nil)
next
  case (Cons s steps)
  obtain k item1 item2 where s: "s = (k, item1, item2)" by (cases s) auto
  show ?case
    unfolding s condemned_Cons Cons.IH
    using assms(2) [of k] line_matches_core [OF assms(1), of item1 item2 ec gap] by simp
qed

lemma bucket_upd:
  "bucket (idx(k \<mapsto> b)) k' = (if k' = k then b else bucket idx k')"
  by (simp add: bucket_def)

lemma run_steps_effect:
  assumes "run_steps ec gap steps fs idx = (fs', idx')"
  shows "length fs' = length fs \<and>
         (\<forall>i<length fs. core (fs' ! i) = core (fs ! i)) \<and>
         (\<forall>i<length fs. filter_ptr (fs' ! i) =
            (if condemned ec gap steps idx (fs ! i) i
             then Some blacklist_filter else filter_ptr (fs ! i))) \<and>
         (\<forall>k. set (bucket idx' k) \<subseteq> set (bucket idx k))"
  using assms
proof (induction steps arbitrary: fs idx)
  case Nil
  then show ?case by (simp add: condemned_Nil)
next
  case (Cons s steps)
  obtain k item1 item2 where s: "s = (k, item1, item2)" by (cases s) auto
  let ?M = "\<lambda>f. line_matches item1 item2 f ec gap"
  show ?case
  proof (cases "idx k")
    case None
    with Cons.prems s have run: "run_steps ec gap steps fs idx = (fs', idx')" by simp
    have "bucket idx k = []" using None by (simp add: bucket_def)
    then have "condemned ec gap (s # steps) idx f i = condemned ec gap steps idx f i" for f i
      by (simp add: s condemned_Cons)
    with Cons.IH [OF run] show ?thesis by simp
  next
    case (Some b)
    obtain b1 fs1 where scan: "scan_bucket item1 item2 ec gap b fs = (b1, fs1)"
      by (cases "scan_bucket item1 item2 ec gap b fs") auto
    define idx1 where "idx1 = idx(k \<mapsto> b1)"
    from Cons.prems s Some scan have run: "run_steps ec gap steps fs1 idx1 = (fs', idx')"
      by (simp add: idx1_def)
    note ih = Cons.IH [OF run]
    note sb = scan_bucket_effect [OF scan]
    have bk: "bucket idx k = b" using Some by (simp add: bucket_def)
    have len1: "length fs1 = length fs" using sb by simp
    have b1: "b1 = filter (\<lambda>p. \<not> ?M (fs ! p)) b" using sb by simp
    have sub1: "set (bucket idx1 k') \<subseteq> set (bucket idx k')" for k'
      using bk b1 by (auto simp add: bucket_upd idx1_def)
    have 1: "length fs' = length fs" using ih len1 by simp
    have 2: "\<forall>i<length fs. core (fs' ! i) = core (fs ! i)"
      using ih sb by simp
    have 4: "\<forall>k. set (bucket idx' k) \<subseteq> set (bucket idx k)"
      using ih sub1 by blast
    have 3: "\<forall>i<length fs. filter_ptr (fs' ! i) =
            (if condemned ec gap (s # steps) idx (fs ! i) i
             then Some blacklist_filter else filter_ptr (fs ! i))"
    proof (intro allI impI)
      fix i assume i: "i < length fs"
      have c1: "core (fs1 ! i) = core (fs ! i)" using sb i by simp
      have f1: "filter_ptr (fs1 ! i) =
                  (if i \<in> set b \<and> ?M (fs ! i) then Some blacklist_filter else filter_ptr (fs ! i))"
        using sb i by simp
      have f': "filter_ptr (fs' ! i) =
                  (if condemned ec gap steps idx1 (fs1 ! i) i
                   then Some blacklist_filter else filter_ptr (fs1 ! i))"
        using ih i len1 by simp
      show "filter_ptr (fs' ! i) =
            (if condemned ec gap (s # steps) idx (fs ! i) i
             then Some blacklist_filter else filter_ptr (fs ! i))"
      proof (cases "i \<in> set b \<and> ?M (fs ! i)")
        case True
        then show ?thesis using f1 f' bk by (simp add: s condemned_Cons)
      next
        case False
        have same: "i \<in> set (bucket idx1 k') \<longleftrightarrow> i \<in> set (bucket idx k')" for k'
          using False bk b1 by (auto simp add: bucket_upd idx1_def)
        have "condemned ec gap steps idx1 (fs1 ! i) i = condemned ec gap steps idx (fs ! i) i"
          using c1 same by (rule condemned_cong)
        then show ?thesis using False f1 f' bk by (auto simp add: s condemned_Cons)
      qed
    qed
    from 1 2 3 4 show ?thesis by blast
  qed
qed

lemma scan_keys_steps:
  "scan_keys item1 item2 ec gap ks fs idx =
     run_steps ec gap (map (\<lambda>k. (k, item1, item2)) ks) fs idx"
  by (induction ks arbitrary: fs idx) (auto split: option.splits prod.splits)

lemma run_steps_append:
  "run_steps ec gap (xs @ ys) fs idx =
     (case run_steps ec gap xs fs idx of (fs1, idx1) \<Rightarrow> run_steps ec gap ys fs1 idx1)"
proof (induction xs arbitrary: fs idx)
  case Nil
  show ?case by simp
next
  case (Cons s xs)
  obtain k item1 item2 where s: "s = (k, item1, item2)" by (cases s) auto
  show ?case
  proof (cases "idx k")
    case None
    then show ?thesis by (simp add: s Cons.IH)
  next
    case (Some b)
    obtain b1 fs1 where scan: "scan_bucket item1 item2 ec gap b fs = (b1, fs1)"
      by (cases "scan_bucket item1 item2 ec gap b fs") auto
    show ?thesis
      unfolding s append_Cons run_steps.simps Some option.case scan prod.case Let_def
      by (rule Cons.IH)
  qed
qed

lemma process_line_steps:
  "(fusions (process_line contigs genes ec gap line st),
    fusions_by_coordinate (process_line contigs genes ec gap line st)) =
   run_steps ec gap (line_steps contigs genes gap line) (fusions st) (fusions_by_coordinate st)"
  by (simp add: process_line_def line_steps_def parse_line_def line_keys_def Let_def
      scan_keys_steps split: sum.splits prod.splits option.splits)

lemma process_lines_steps:
  "(fusions (process_lines contigs genes ec gap lines st),
    fusions_by_coordinate (process_lines contigs genes ec gap lines st)) =
   run_steps ec gap (concat (map (line_steps contigs genes gap) lines))
     (fusions st) (fusions_by_coordinate st)"
proof (induction lines arbitrary: st)
  case Nil
  show ?case by simp
next
  case (Cons line lines)
  let ?st1 = "process_line contigs genes ec gap line st"
  have "run_steps ec gap (line_steps contigs genes gap line) (fusions st) (fusions_by_coordinate st)
          = (fusions ?st1, fusions_by_coordinate ?st1)"
    by (simp only: process_line_steps)
  then show ?case
    by (simp add: run_steps_append Cons.IH)
qed

lemma set_insert_set: "set (set_insert p ps) = insert p (set ps)"
  by (auto simp add: set_insert_def set_insort_key)

lemma index_insert_bucket:
  "set (bucket (index_insert ks p idx) k) =
     set (bucket idx k) \<union> (if k \<in> set ks then {p} else {})"
proof (induction ks arbitrary: idx)
  case Nil
  show ?case by simp
next
  case (Cons k' ks)
  have step: "index_insert (k' # ks) p idx =
                index_insert ks p (idx(k' \<mapsto> set_insert p (bucket idx k')))"
    by (simp add: bucket_def)
  show ?case
    unfolding step Cons.IH
    by (auto simp add: bucket_upd set_insert_set)
qed

lemma index_fusions_bucket:
  "set (bucket (index_fusions fs ps idx) k) =
     set (bucket idx k) \<union>
     {p \<in> set ps. eligible (fs ! p) \<and> k \<in> set (fusion_index_keys (fs ! p))}"
proof (induction ps arbitrary: idx)
  case Nil
  show ?case by simp
next
  case (Cons p ps)
  show ?case
    by (auto simp add: Cons.IH index_insert_bucket eligible_def)
qed

lemma bucket_empty: "bucket Map.empty k = []"
  by (simp add: bucket_def)

lemma built_index_bucket:
  "i \<in> set (bucket (index_fusions fs [0..<length fs] Map.empty) k) \<longleftrightarrow>
     i < length fs \<and> eligible (fs ! i) \<and> k \<in> set (fusion_index_keys (fs ! i))"
  by (auto simp add: index_fusions_bucket bucket_empty)

lemma fusions_after_run:
  "fusions_after fs blacklist contigs genes ec gap =
     fst (run_steps ec gap (blacklist_steps contigs genes gap blacklist) fs (built_index fs))"
proof -
  let ?st0 = "\<lparr>fusions = fs, fusions_by_coordinate = built_index fs, cerr = []\<rparr>"
  have "fusions (process_lines contigs genes ec gap blacklist ?st0) =
          fst (run_steps ec gap (blacklist_steps contigs genes gap blacklist)
                 (fusions ?st0) (fusions_by_coordinate ?st0))"
    unfolding blacklist_steps_def
    by (simp only: process_lines_steps [symmetric] fst_conv)
  then show ?thesis
    by (simp add: fusions_after_def filter_blacklisted_ranges_def built_index_def Let_def)
qed

lemma remaining_after_count:
  "remaining_after fs blacklist contigs genes ec gap =
     count_remaining (fusions_after fs blacklist contigs genes ec gap)"
  by (simp add: remaining_after_def fusions_after_def filter_blacklisted_ranges_def Let_def)

lemma filter_effect:
  "length (fusions_after fs blacklist contigs genes ec gap) = length fs \<and>
   (\<forall>i<length fs.
      core (fusions_after fs blacklist contigs genes ec gap ! i) = core (fs ! i)) \<and>
   (\<forall>i<length fs.
      filter_ptr (fusions_after fs blacklist contigs genes ec gap ! i) =
        (if condemned ec gap (blacklist_steps contigs genes gap blacklist) (built_index fs) (fs ! i) i
         then Some blacklist_filter else filter_ptr (fs ! i)))"
proof -
  obtain fs' idx' where run:
    "run_steps ec gap (blacklist_steps contigs genes gap blacklist) fs (built_index fs) = (fs', idx')"
    by (cases "run_steps ec gap (blacklist_steps contigs genes gap blacklist) fs (built_index fs)") auto
  have "fusions_after fs blacklist contigs genes ec gap = fs'"
    by (simp add: fusions_after_run run)
  with run_steps_effect [OF run] show ?thesis by simp
qed

lemma condemned_built:
  "condemned ec gap steps (built_index fs) f i \<longleftrightarrow>
     i < length fs \<and> eligible (fs ! i) \<and>
     list_ex (\<lambda>(k, item1, item2). k \<in> set (fusion_index_keys (fs ! i)) \<and>
                line_matches item1 item2 f ec gap) steps"
  by (auto simp add: condemned_def list_ex_iff built_index_def built_index_bucket)

lemma filter_twice_same:
  "fusions_after (fusions_after fs blacklist contigs genes ec gap) blacklist contigs genes ec gap =
     fusions_after fs blacklist contigs genes ec gap"
proof -
  let ?fs1 = "fusions_after fs blacklist contigs genes ec gap"
  let ?fs2 = "fusions_after ?fs1 blacklist contigs genes ec gap"
  let ?steps = "blacklist_steps contigs genes gap blacklist"
  note e1 = filter_effect [of fs blacklist contigs genes ec gap]
  note e2 = filter_effect [of ?fs1 blacklist contigs genes ec gap]
  have len1: "length ?fs1 = length fs" using e1 by simp
  have len2: "length ?fs2 = length ?fs1" using e2 by simp
  show ?thesis
  proof (rule nth_equalityI)
    show "length ?fs2 = length ?fs1" by (rule len2)
  next
    fix i assume "i < length ?fs2"
    then have i: "i < length fs" using len1 len2 by simp
    have c1: "core (?fs1 ! i) = core (fs ! i)" using e1 i by simp
    have c2: "core (?fs2 ! i) = core (?fs1 ! i)" using e2 i len1 by simp
    have f1: "filter_ptr (?fs1 ! i) =
                (if condemned ec gap ?steps (built_index fs) (fs ! i) i
                 then Some blacklist_filter else filter_ptr (fs ! i))"
      using e1 i by simp
    have f2: "filter_ptr (?fs2 ! i) =
                (if condemned ec gap ?steps (built_index ?fs1) (?fs1 ! i) i
                 then Some blacklist_filter else filter_ptr (?fs1 ! i))"
      using e2 i len1 by simp
    have "filter_ptr (?fs1 ! i) = Some blacklist_filter"
      if again: "condemned ec gap ?steps (built_index ?fs1) (?fs1 ! i) i"
    proof (rule ccontr)
      assume not: "filter_ptr (?fs1 ! i) \<noteq> Some blacklist_filter"
      with f1 have nc: "\<not> condemned ec gap ?steps (built_index fs) (fs ! i) i"
        and same: "filter_ptr (?fs1 ! i) = filter_ptr (fs ! i)"
        by (auto split: if_splits)
      from c1 same have eq: "?fs1 ! i = fs ! i" by (rule core_filter_eq)
      from again have "eligible (?fs1 ! i)"
        and "list_ex (\<lambda>(k, item1, item2). k \<in> set (fusion_index_keys (?fs1 ! i)) \<and>
                line_matches item1 item2 (?fs1 ! i) ec gap) ?steps"
        by (simp_all add: condemned_built)
      then have "condemned ec gap ?steps (built_index fs) (fs ! i) i"
        using i by (simp add: condemned_built eq)
      with nc show False by simp
    qed
    then have "filter_ptr (?fs2 ! i) = filter_ptr (?fs1 ! i)"
      using f2 by simp
    with c2 show "?fs2 ! i = ?fs1 ! i" by (rule core_filter_eq)
  qed
qed

lemmas float_defs =
  float_of_quotient_def round_quotient_def floor_log2_def round_half_even_def pow2_def
  bit_length.simps int32_def Let_def

lemmas run_defs =
  filter_blacklisted_ranges_def remaining_after_def fusions_after_def process_line_def
  split_line_def parse_blacklist_item_def keyword_type_def parse_range_def replace_char_def
  str_assign_def new_istringstream_def read_word_def read_int_def isspace_c_def isdigit_c_def
  dec_value_def INT_MAX_def INT_MIN_def int32_def Let_def has_coordinates_def
  get_index_keys_from_range_eq c_div_def bucket_size_def fusion_index_keys_def
  set_insert_def line_matches_def matches_blacklist_item.simps count_remaining_def
  blacklist_filter_def unassigned_item_def warning_def upto.simps

lemma sample_run:
  "filter_blacklisted_ranges sample_fusions sample_blacklist sample_contigs Map.empty 0 0 =
     (1,
      [sample_fusion\<lparr>filter_ptr := Some ''blacklist''\<rparr>,
       sample_fusion\<lparr>breakpoint1 := 7, closest_genomic_breakpoint1 := 12,
         filter_ptr := Some ''blacklist''\<rparr>,
       sample_fusion\<lparr>filter_ptr := Some ''intronic''\<rparr>,
       sample_fusion\<lparr>breakpoint1 := 2000\<rparr>],
      [''WARNING: unknown gene or malformed range: chrX 5''])"
  by (simp add: run_defs sample_fusions_def sample_blacklist_def sample_contigs_def
      sample_fusion_def gene_a_def gene_b_def)

lemma c_div_mono:
  assumes "a \<le> a'" and "0 < b"
  shows "c_div a b \<le> c_div a' b"
proof -
  have pos: "c_div x b = x div b" if "0 \<le> x" for x
    using that assms(2) by (rule c_div_nonneg)
  have neg: "c_div x b = - ((- x) div b)" if "x < 0" for x
    using that assms(2) by (simp add: c_div_def)
  show ?thesis
  proof (cases "0 \<le> a")
    case True
    then have "0 \<le> a'" using assms(1) by simp
    with True show ?thesis using assms by (simp add: pos zdiv_mono1)
  next
    case False
    then have a: "a < 0" by simp
    show ?thesis
    proof (cases "0 \<le> a'")
      case True
      have "0 \<le> (- a) div b" using a assms(2) by (simp add: pos_imp_zdiv_nonneg_iff)
      moreover have "0 \<le> a' div b" using True assms(2) by (simp add: pos_imp_zdiv_nonneg_iff)
      ultimately show ?thesis using a True by (simp add: pos neg)
    next
      case False
      then have a': "a' < 0" by simp
      have "(- a') div b \<le> (- a) div b"
        using assms by (simp add: zdiv_mono1)
      then show ?thesis using a a' by (simp add: neg)
    qed
  qed
qed

lemma get_index_keys_nonempty:
  assumes "INT_MIN \<le> s" and "s \<le> e" and "e \<le> 2147383648"
  shows "get_index_keys_from_range c s e ks \<noteq> []"
proof -
  have b: "int32 (int32 (e + bucket_size) - 1) = e + 99999"
    using assms by (intro loop_bound_in_range) simp_all
  have "c_div s bucket_size \<le> c_div (e + 99999) bucket_size"
    using assms(2) by (intro c_div_mono) (simp_all add: bucket_size_def)
  then have "[c_div s bucket_size..c_div (e + 99999) bucket_size] \<noteq> []"
    by (simp add: upto_rec1)
  then show ?thesis by (simp add: get_index_keys_from_range_eq b)
qed

lemma get_index_keys_keeps: "ks \<noteq> [] \<Longrightarrow> get_index_keys_from_range c s e ks \<noteq> []"
  by (simp add: get_index_keys_from_range_eq)

lemma fusion_index_keys_nonempty:
  assumes "INT_MIN \<le> breakpoint1 f" and "breakpoint1 f \<le> 2147383648"
  shows "fusion_index_keys f \<noteq> []"
  unfolding fusion_index_keys_def
  using assms by (intro get_index_keys_keeps get_index_keys_nonempty) simp_all

lemma line_steps_hit:
  "list_ex (\<lambda>(k, item1, item2). k \<in> set (fusion_index_keys f) \<and>
              line_matches item1 item2 f' ec gap)
     (line_steps contigs genes gap line) \<longleftrightarrow>
   (case parse_line contigs genes line of
      None \<Rightarrow> False
    | Some (item1, item2) \<Rightarrow>
        list_ex (\<lambda>k. k \<in> set (fusion_index_keys f)) (line_keys gap item1 item2) \<and>
        line_matches item1 item2 f' ec gap)"
  by (cases "parse_line contigs genes line") (force simp add: line_steps_def list_ex_iff)+

lemma steps_hit:
  "list_ex (\<lambda>(k, item1, item2). k \<in> set (fusion_index_keys f) \<and>
              line_matches item1 item2 f' ec gap)
     (blacklist_steps contigs genes gap blacklist) \<longleftrightarrow>
   list_ex (\<lambda>line.
        case parse_line contigs genes line of
          None \<Rightarrow> False
        | Some (item1, item2) \<Rightarrow>
            list_ex (\<lambda>k. k \<in> set (fusion_index_keys f)) (line_keys gap item1 item2) \<and>
            line_matches item1 item2 f' ec gap) blacklist"
proof (induction blacklist)
  case Nil
  show ?case by (simp add: blacklist_steps_def)
next
  case (Cons line rest)
  have split: "blacklist_steps contigs genes gap (line # rest) =
                 line_steps contigs genes gap line @ blacklist_steps contigs genes gap rest"
    by (simp add: blacklist_steps_def)
  show ?case
    by (simp only: split list_ex_append list_ex_Cons_iff Cons.IH line_steps_hit)
qed

lemma filter_ptr_after:
  assumes "i < length fs"
  shows "filter_ptr (fusions_after fs blacklist contigs genes ec gap ! i) =
           (if eligible (fs ! i) \<and> hit_by_blacklist contigs genes ec gap blacklist (fs ! i)
            then Some blacklist_filter else filter_ptr (fs ! i))"
proof -
  have f: "filter_ptr (fusions_after fs blacklist contigs genes ec gap ! i) =
        (if condemned ec gap (blacklist_steps contigs genes gap blacklist) (built_index fs) (fs ! i) i
         then Some blacklist_filter else filter_ptr (fs ! i))"
    using filter_effect [of fs blacklist contigs genes ec gap] assms by blast
  have c: "condemned ec gap (blacklist_steps contigs genes gap blacklist) (built_index fs) (fs ! i) i
             \<longleftrightarrow> eligible (fs ! i) \<and> hit_by_blacklist contigs genes ec gap blacklist (fs ! i)"
    unfolding condemned_built hit_by_blacklist_def steps_hit using assms by simp
  show ?thesis by (simp only: f c)
qed

lemma fusion_after_frame:
  assumes "i < length fs"
  shows "fusions_after fs blacklist contigs genes ec gap ! i =
           (fs ! i)\<lparr>filter_ptr := filter_ptr (fusions_after fs blacklist contigs genes ec gap ! i)\<rparr>"
proof -
  let ?f' = "fusions_after fs blacklist contigs genes ec gap ! i"
  have c: "core ?f' = core (fs ! i)"
    using filter_effect [of fs blacklist contigs genes ec gap] assms by simp
  have "core ?f' = core ((fs ! i)\<lparr>filter_ptr := filter_ptr ?f'\<rparr>)"
    by (simp add: c core_tag)
  moreover have "filter_ptr ?f' = filter_ptr ((fs ! i)\<lparr>filter_ptr := filter_ptr ?f'\<rparr>)"
    by simp
  ultimately show ?thesis by (rule core_filter_eq)
qed

lemmas hit_defs = hit_by_blacklist_def parse_line_def line_keys_def

lemma read_int_at_eof: "eofbit iss \<Longrightarrow> read_int iss = (iss\<lparr>failbit := True\<rparr>, None)"
  by (simp add: read_int_def)

lemma parse_range_without_colon:
  assumes "CHR '':'' \<notin> set t" and "CHR ''-'' \<notin> set t" and "list_all (\<lambda>c. \<not> isspace_c c) t"
  shows "isl (parse_range t contigs item)"
proof (cases "t = []")
  case True
  then show ?thesis
    by (simp add: parse_range_def replace_char_def str_assign_def new_istringstream_def
        read_word_def)
next
  case False
  have r: "replace_char (CHR '':'') (CHR '' '') t = t"
    using assms(1) by (rule replace_char_id)
  let ?iss1 = "str_assign new_istringstream t"
  have w: "read_word ?iss1 = (?iss1\<lparr>rdbuf := [], eofbit := True\<rparr>, Some t)"
    using read_word_next [of ?iss1 "[]" t "[]"] False assms(3)
    by (simp add: str_assign_def new_istringstream_def)
  have i: "read_int (?iss1\<lparr>rdbuf := [], eofbit := True\<rparr>) =
             (?iss1\<lparr>rdbuf := [], eofbit := True, failbit := True\<rparr>, None)"
    by (simp add: read_int_at_eof)
  show ?thesis
    unfolding parse_range_def r Let_def w
    using False assms(2) i by (simp split: option.splits)
qed

lemma keyword_is_no_range:
  assumes "keyword_type t \<noteq> None"
  shows "isl (parse_range t contigs item)"
proof -
  from assms have "CHR '':'' \<notin> set t \<and> CHR ''-'' \<notin> set t \<and> list_all (\<lambda>c. \<not> isspace_c c) t"
    by (auto simp add: keyword_type_def isspace_c_def split: if_splits)
  then show ?thesis by (simp add: parse_range_without_colon)
qed

lemma keyword_as_first_token:
  assumes "keyword_type t \<noteq> None" and "genes t = None"
  shows "isl (parse_blacklist_item t item contigs genes False)"
  using keyword_is_no_range [OF assms(1), of contigs item] assms(2)
  by (cases "parse_range t contigs item") (simp_all add: parse_blacklist_item_def)

lemma unresolved_line_steps:
  assumes "isl (parse_blacklist_item (fst (split_line line)) unassigned_item contigs genes False) \<or>
           isl (parse_blacklist_item (snd (split_line line)) unassigned_item contigs genes True)"
  shows "line_steps contigs genes gap line = []"
  using assms by (auto simp add: line_steps_def parse_line_def split: sum.splits)

lemma unresolved_line_warns:
  assumes "line \<noteq> []" and "hd line \<noteq> CHR ''#''"
    and "isl (parse_blacklist_item (fst (split_line line)) unassigned_item contigs genes False) \<or>
         isl (parse_blacklist_item (snd (split_line line)) unassigned_item contigs genes True)"
  shows "\<exists>w. process_line contigs genes ec gap line st = st\<lparr>cerr := cerr st @ [w]\<rparr>"
  using assms
  by (auto simp add: process_line_def Let_def split: sum.splits prod.splits)

section \<open>Overlap and range items: lemmas\<close>

text \<open>What \<^verbatim>\<open>overlapping_fraction\<close> does return: 1 for a gene inside the range, 0 for
  ranges that do not meet.\<close>

lemma overlapping_fraction_contained:
  "start2 \<le> start1 \<Longrightarrow> end1 \<le> end2 \<Longrightarrow> overlapping_fraction start1 end1 start2 end2 = 1"
  by (simp add: overlapping_fraction_def)

lemma overlapping_fraction_same: "overlapping_fraction a b a b = 1"
  by (simp add: overlapping_fraction_def)

lemma overlapping_fraction_disjoint:
  "start1 \<le> end1 \<Longrightarrow> start2 \<le> end2 \<Longrightarrow> end1 < start2 \<or> end2 < start1 \<Longrightarrow>
     overlapping_fraction start1 end1 start2 end2 = 0"
  by (auto simp add: overlapping_fraction_def)

text \<open>A range item that passes the tests on contig and strand matches exactly when the
  number that \<^verbatim>\<open>overlapping_fraction\<close> returns is greater than one half.\<close>

lemma range_item_match_by_returned_fraction:
  assumes "item_type item = BLACKLIST_RANGE"
    and "(if wb = 1 then contig1 f else contig2 f) = contig item"
    and "strand_defined item \<longrightarrow> predicted_strands_ambiguous f \<or>
           (if wb = 1 then predicted_strand1 f else predicted_strand2 f) = strand item"
  shows "matches_blacklist_item item f wb ec gap \<longleftrightarrow>
           overlapping_fraction
             (gene_start (if wb = 1 then gene1 f else gene2 f))
             (gene_end (if wb = 1 then gene1 f else gene2 f))
             (start item) (end_pos item) > 1 / 2"
  using assms by (simp add: matches_blacklist_item.simps Let_def)

section \<open>The claims\<close>

text \<open>
  C1. The claim: for gene range [start1, end1] and blacklist range [start2, end2],
  \<open>overlapping_fraction\<close> is the length of the intersection over the length of the
  gene. The function does not compute this. For the gene [10, 17] and the range
  [10, 13] the intersection has 4 of the gene's 8 positions, and the function
  returns 0; the gene [10, 17] shares 1 position with [0, 10] and 6 positions with
  [9, 15], and the function returns 5/4 for the first and 1/8 for the second, so it
  neither stays below 1 nor grows with the intersection.
\<close>

theorem overlapping_fraction_is_not_the_overlap:
  "overlapping_fraction 10 17 10 13 = 0 \<and>
   fraction_of_range1_in_range2 10 17 10 13 = 1 / 2 \<and>
   intersection_length 10 17 0 10 = 1 \<and> overlapping_fraction 10 17 0 10 = 5 / 4 \<and>
   intersection_length 10 17 9 15 = 6 \<and> overlapping_fraction 10 17 9 15 = 1 / 8"
  by (simp add: overlapping_fraction_def fraction_of_range1_in_range2_def
      intersection_length_def float_defs)

text \<open>
  C2. The claim: a range item matches exactly when more than half of the gene of the
  breakpoint lies in the range of the item. The gene [10, 17] has 6 of its 8
  positions in the range [10, 15], and the item does not match; the gene [100, 103]
  has exactly half of its positions in the range [0, 101], and the item matches.
\<close>

theorem range_item_match_is_not_majority_overlap:
  "fraction_of_range1_in_range2 10 17 10 15 = 3 / 4 \<and>
   \<not> matches_blacklist_item (range_item 1 10 15) (sample_fusion\<lparr>gene1 := gene_10_17\<rparr>) 1 0 0 \<and>
   fraction_of_range1_in_range2 100 103 0 101 = 1 / 2 \<and>
   matches_blacklist_item (range_item 1 0 101) (sample_fusion\<lparr>gene1 := gene_100_103\<rparr>) 1 0 0"
  by (simp add: matches_blacklist_item.simps range_item_def sample_fusion_def gene_10_17_def
      gene_100_103_def unassigned_item_def overlapping_fraction_def
      fraction_of_range1_in_range2_def intersection_length_def float_defs)

text \<open>
  C3. The claim: a token \<open>-contig:pos\<close> parses to a position on the reverse strand,
  and \<open>+contig:pos\<close> to one on the forward strand. The second half holds. A token
  \<open>-contig:pos\<close> is rejected with a warning, whatever the contig and the position:
  the leading hyphen makes the parser expect a start and an end.
\<close>

theorem signed_position_token:
  assumes "plain_contig_name c" and "contigs c = Some k" and "number_text ds"
  shows "parse_range (CHR ''-'' # c @ CHR '':'' # ds) contigs item =
           Inl (warning (CHR '' '' # c @ CHR '' '' # ds)) \<and>
         parse_range (CHR ''+'' # c @ CHR '':'' # ds) contigs item =
           Inr (item\<lparr>strand_defined := True, strand := FORWARD, contig := k,
                      start := dec_value ds - 1, end_pos := dec_value ds - 1\<rparr>)"
  using assms by (simp add: parse_position_reverse parse_position_forward)

theorem signed_position_token_witness:
  "plain_contig_name ''chr1'' \<and> sample_contigs ''chr1'' = Some 1 \<and> number_text ''1000'' \<and>
   parse_range ''-chr1:1000'' sample_contigs unassigned_item = Inl (warning '' chr1 1000'') \<and>
   parse_range ''+chr1:1000'' sample_contigs unassigned_item =
     Inr (unassigned_item\<lparr>strand_defined := True, strand := FORWARD, contig := 1,
            start := 999, end_pos := 999\<rparr>)"
proof -
  have h: "plain_contig_name ''chr1''" "sample_contigs ''chr1'' = Some 1" "number_text ''1000''"
    by (simp_all add: plain_contig_name_def sample_contigs_def number_text_def isspace_c_def
        isdigit_c_def dec_value_def INT_MAX_def)
  have v: "dec_value ''1000'' = 1000" by (simp add: dec_value_def)
  show ?thesis
    using h signed_position_token [of "''chr1''" sample_contigs 1 "''1000''" unassigned_item]
    by (simp add: v)
qed

text \<open>
  C4, as amended. For a position item and a breakpoint on its contig whose strand is
  compatible. The item matches when the breakpoint is the position of the item. When
  \<open>start - max_mate_gap\<close> and \<open>start + max_mate_gap\<close> fit a 32-bit \<^verbatim>\<open>int\<close>, the item
  matches exactly when the breakpoint is the position of the item, or the fusion has
  no split reads and the breakpoint lies within \<open>max_mate_gap\<close> of the position, on
  the side its direction points from. With no split reads, direction
  downstream, a gap that is not negative, and \<open>breakpoint\<close> and
  \<open>breakpoint + max_mate_gap + 1\<close> fitting a 32-bit \<^verbatim>\<open>int\<close>, the item at
  \<open>breakpoint + max_mate_gap\<close> matches and the item one further does not.
\<close>

theorem position_item_match:
  assumes "item_type item = BLACKLIST_POSITION"
    and "(if wb = 1 then contig1 f else contig2 f) = contig item"
    and "strand_defined item \<longrightarrow> predicted_strands_ambiguous f \<or>
           (if wb = 1 then predicted_strand1 f else predicted_strand2 f) = strand item"
  shows "((if wb = 1 then breakpoint1 f else breakpoint2 f) = start item \<longrightarrow>
            matches_blacklist_item item f wb ec gap) \<and>
         (fits_int (start item - gap) \<and> fits_int (start item + gap) \<longrightarrow>
            (matches_blacklist_item item f wb ec gap \<longleftrightarrow>
               (if wb = 1 then breakpoint1 f else breakpoint2 f) = start item \<or>
               split_reads1 f + split_reads2 f = 0 \<and>
                 ((if wb = 1 then direction1 f else direction2 f) = DOWNSTREAM \<and>
                    start item - gap \<le> (if wb = 1 then breakpoint1 f else breakpoint2 f) \<and>
                    (if wb = 1 then breakpoint1 f else breakpoint2 f) \<le> start item
                  \<or> (if wb = 1 then direction1 f else direction2 f) = UPSTREAM \<and>
                    start item \<le> (if wb = 1 then breakpoint1 f else breakpoint2 f) \<and>
                    (if wb = 1 then breakpoint1 f else breakpoint2 f) \<le> start item + gap))) \<and>
         (split_reads1 f + split_reads2 f = 0 \<and>
          (if wb = 1 then direction1 f else direction2 f) = DOWNSTREAM \<and> 0 \<le> gap \<and>
          fits_int (if wb = 1 then breakpoint1 f else breakpoint2 f) \<and>
          fits_int ((if wb = 1 then breakpoint1 f else breakpoint2 f) + gap + 1) \<longrightarrow>
            matches_blacklist_item
              (item\<lparr>start := (if wb = 1 then breakpoint1 f else breakpoint2 f) + gap\<rparr>)
              f wb ec gap \<and>
            \<not> matches_blacklist_item
              (item\<lparr>start := (if wb = 1 then breakpoint1 f else breakpoint2 f) + gap + 1\<rparr>)
              f wb ec gap)"
proof -
  define bp where "bp = (if wb = 1 then breakpoint1 f else breakpoint2 f)"
  define dir where "dir = (if wb = 1 then direction1 f else direction2 f)"
  have rule: "matches_blacklist_item (item\<lparr>start := s\<rparr>) f wb ec gap \<longleftrightarrow>
                bp = s \<or> split_reads1 f + split_reads2 f = 0 \<and>
                  (dir = DOWNSTREAM \<and> int32 (s - gap) \<le> bp \<and> bp \<le> s \<or>
                   dir = UPSTREAM \<and> s \<le> bp \<and> bp \<le> int32 (s + gap))" for s
    using assms unfolding bp_def dir_def
    by (cases "wb = 1") (auto simp add: matches_blacklist_item.simps Let_def)
  have exact: "bp = start item \<longrightarrow> matches_blacklist_item item f wb ec gap"
    using rule [of "start item"] by simp
  have first: "fits_int (start item - gap) \<and> fits_int (start item + gap) \<longrightarrow>
                 (matches_blacklist_item item f wb ec gap \<longleftrightarrow>
                    bp = start item \<or> split_reads1 f + split_reads2 f = 0 \<and>
                      (dir = DOWNSTREAM \<and> start item - gap \<le> bp \<and> bp \<le> start item \<or>
                       dir = UPSTREAM \<and> start item \<le> bp \<and> bp \<le> start item + gap))"
    using rule [of "start item"] by (simp add: int32_id)
  have second: "split_reads1 f + split_reads2 f = 0 \<and> dir = DOWNSTREAM \<and> 0 \<le> gap \<and>
                fits_int bp \<and> fits_int (bp + gap + 1) \<longrightarrow>
                  matches_blacklist_item (item\<lparr>start := bp + gap\<rparr>) f wb ec gap \<and>
                  \<not> matches_blacklist_item (item\<lparr>start := bp + gap + 1\<rparr>) f wb ec gap"
  proof (intro impI, elim conjE)
    assume h: "split_reads1 f + split_reads2 f = 0" "dir = DOWNSTREAM" "0 \<le> gap"
      "fits_int bp" "fits_int (bp + gap + 1)"
    have "fits_int (bp + 1)"
      using h(3,4,5) unfolding fits_int_def by linarith
    then have next_one: "int32 (bp + 1) = bp + 1"
      by (rule int32_id)
    have same: "int32 bp = bp"
      using h(4) by (rule int32_id)
    have a: "matches_blacklist_item (item\<lparr>start := bp + gap\<rparr>) f wb ec gap"
      using h(1,2,3) by (simp add: rule same)
    have "bp + gap + 1 - gap = bp + 1"
      by simp
    then have b: "\<not> matches_blacklist_item (item\<lparr>start := bp + gap + 1\<rparr>) f wb ec gap"
      using h(1,2,3) by (simp only: rule next_one) simp
    from a b show "matches_blacklist_item (item\<lparr>start := bp + gap\<rparr>) f wb ec gap \<and>
                   \<not> matches_blacklist_item (item\<lparr>start := bp + gap + 1\<rparr>) f wb ec gap" ..
  qed
  from exact first second show ?thesis
    unfolding bp_def dir_def by blast
qed

theorem position_item_match_witness:
  "item_type (position_item 1 1005) = BLACKLIST_POSITION \<and>
   contig1 sample_fusion = contig (position_item 1 1005) \<and>
   \<not> strand_defined (position_item 1 1005) \<and>
   split_reads1 sample_fusion + split_reads2 sample_fusion = 0 \<and>
   direction1 sample_fusion = DOWNSTREAM \<and> breakpoint1 sample_fusion = 1000 \<and>
   fits_int 1000 \<and> fits_int (1000 + 5 + 1) \<and>
   matches_blacklist_item (position_item 1 1005) sample_fusion 1 0 5 \<and>
   \<not> matches_blacklist_item (position_item 1 1006) sample_fusion 1 0 5"
proof -
  have h1: "item_type (position_item 1 1005) = BLACKLIST_POSITION"
    and h2: "(if (1::nat) = 1 then contig1 sample_fusion else contig2 sample_fusion) =
               contig (position_item 1 1005)"
    and h3: "strand_defined (position_item 1 1005) \<longrightarrow>
               predicted_strands_ambiguous sample_fusion \<or>
               (if (1::nat) = 1 then predicted_strand1 sample_fusion
                else predicted_strand2 sample_fusion) = strand (position_item 1 1005)"
    by (simp_all add: position_item_def sample_fusion_def unassigned_item_def)
  have fits: "fits_int 1000" "fits_int 1006"
    by (simp_all add: fits_int_def INT_MIN_def INT_MAX_def)
  have m: "matches_blacklist_item ((position_item 1 1005)\<lparr>start := 1006\<rparr>) sample_fusion 1 0 5
             = matches_blacklist_item (position_item 1 1006) sample_fusion 1 0 5"
    by (simp add: matches_blacklist_item.simps position_item_def)
  show ?thesis
    using position_item_match [OF h1 h2 h3, where gap = 5 and ec = 0] m fits
    by (simp add: position_item_def sample_fusion_def unassigned_item_def)
qed

text \<open>
  The claim as it was stated has neither bound. With a gap of \<open>-1\<close>, no split reads
  and direction downstream, the item at \<open>breakpoint + max_mate_gap\<close> does not match
  and the item one further, which is at the breakpoint, does. With the item at
  2147483646, the breakpoint at 2147483647, direction upstream, no split reads and a
  gap of 2, the breakpoint lies between \<open>start\<close> and \<open>start + max_mate_gap\<close>, and the
  item does not match: the sum does not fit a 32-bit \<^verbatim>\<open>int\<close>.
\<close>

theorem position_item_rule_needs_bounds:
  "split_reads1 sample_fusion + split_reads2 sample_fusion = 0 \<and>
   contig1 sample_fusion = 1 \<and> direction1 sample_fusion = DOWNSTREAM \<and>
   breakpoint1 sample_fusion = 1000 \<and>
   \<not> matches_blacklist_item (position_item 1 (1000 + (- 1))) sample_fusion 1 0 (- 1) \<and>
   matches_blacklist_item (position_item 1 (1000 + (- 1) + 1)) sample_fusion 1 0 (- 1) \<and>
   (2147483646 :: int) \<le> 2147483647 \<and> (2147483647 :: int) \<le> 2147483646 + 2 \<and>
   \<not> matches_blacklist_item (position_item 1 2147483646)
       (sample_fusion\<lparr>breakpoint1 := 2147483647, direction1 := UPSTREAM\<rparr>) 1 0 2"
  by (simp add: matches_blacklist_item.simps position_item_def sample_fusion_def
      unassigned_item_def int32_def)

text \<open>
  C5, as amended. For a token \<open>contig:start-end\<close> or \<open>contig:pos\<close> whose contig name
  is known, is not empty, has no white space, colon or hyphen and does not begin with
  a plus sign, and whose numbers are non-empty strings of decimal digits with a value
  of at most 2147483647, the parser succeeds, leaves the strand undefined, sets the
  contig, and returns each coordinate decremented by one, once.
\<close>

theorem plain_token_coordinates:
  assumes "plain_contig_name c" and "contigs c = Some k"
    and "number_text ds1" and "number_text ds2"
  shows "parse_range (c @ CHR '':'' # ds1 @ CHR ''-'' # ds2) contigs item =
           Inr (item\<lparr>strand_defined := False, contig := k,
                      start := dec_value ds1 - 1, end_pos := dec_value ds2 - 1\<rparr>) \<and>
         parse_range (c @ CHR '':'' # ds1) contigs item =
           Inr (item\<lparr>strand_defined := False, contig := k,
                      start := dec_value ds1 - 1, end_pos := dec_value ds1 - 1\<rparr>)"
  using assms by (simp add: parse_interval_plain parse_position_plain)

theorem plain_token_coordinates_witness:
  "plain_contig_name ''chr2'' \<and> sample_contigs ''chr2'' = Some 2 \<and>
   number_text ''1000'' \<and> number_text ''2500'' \<and>
   parse_range ''chr2:1000-2500'' sample_contigs unassigned_item =
     Inr (unassigned_item\<lparr>strand_defined := False, contig := 2, start := 999, end_pos := 2499\<rparr>) \<and>
   parse_range ''chr2:1000'' sample_contigs unassigned_item =
     Inr (unassigned_item\<lparr>strand_defined := False, contig := 2, start := 999, end_pos := 999\<rparr>)"
proof -
  have h: "plain_contig_name ''chr2''" "sample_contigs ''chr2'' = Some 2"
    "number_text ''1000''" "number_text ''2500''"
    by (simp_all add: plain_contig_name_def sample_contigs_def number_text_def isspace_c_def
        isdigit_c_def dec_value_def INT_MAX_def)
  have v: "dec_value ''1000'' = 1000" "dec_value ''2500'' = 2500" by (simp_all add: dec_value_def)
  show ?thesis
    using h plain_token_coordinates
              [of "''chr2''" sample_contigs 2 "''1000''" "''2500''" unassigned_item]
    by (simp add: v)
qed

text \<open>
  The claim as it was stated asks for this of every known contig. The contig \<open>chr-1\<close>
  is known, 5 and 9 are numbers, and the tokens \<open>chr-1:5-9\<close> and \<open>chr-1:5\<close> are
  both accepted with the interval [0, 4]: the hyphen of the name is taken for the one
  between start and end, and the 1 of the name for the start. The contigs \<open>HLA-A\<close>,
  \<open>alt:1\<close> and \<open>+ctg\<close> are known too, and their tokens are rejected: the
  colon of the name is taken for the one before the position, and the plus sign for a
  strand.
\<close>

theorem contig_name_with_separator_misparsed:
  "sample_contigs ''chr-1'' = Some 10 \<and> number_text ''5'' \<and> number_text ''9'' \<and>
   parse_range ''chr-1:5-9'' sample_contigs unassigned_item =
     Inr (unassigned_item\<lparr>strand_defined := False, contig := 10, start := 0, end_pos := 4\<rparr>) \<and>
   parse_range ''chr-1:5'' sample_contigs unassigned_item =
     Inr (unassigned_item\<lparr>strand_defined := False, contig := 10, start := 0, end_pos := 4\<rparr>) \<and>
   sample_contigs ''HLA-A'' = Some 7 \<and>
   parse_range ''HLA-A:5-9'' sample_contigs unassigned_item = Inl (warning ''HLA A 5 9'') \<and>
   parse_range ''HLA-A:5'' sample_contigs unassigned_item = Inl (warning ''HLA A 5'') \<and>
   sample_contigs ''alt:1'' = Some 8 \<and>
   parse_range ''alt:1:5'' sample_contigs unassigned_item = Inl (warning ''alt 1 5'') \<and>
   sample_contigs ''+ctg'' = Some 9 \<and>
   parse_range ''+ctg:5'' sample_contigs unassigned_item = Inl (warning ''+ctg 5'')"
  by (simp add: parse_range_def replace_char_def str_assign_def new_istringstream_def
      read_word_def read_int_def isspace_c_def isdigit_c_def dec_value_def INT_MAX_def
      INT_MIN_def int32_def Let_def sample_contigs_def number_text_def)

text \<open>
  C6. Running the filter a second time, on the fusions as the first run has left them
  and with the same blacklist, catalogs and parameters, returns the same number of
  remaining fusions and leaves every fusion, its filter included, as it was after the
  first run.
\<close>

theorem filter_is_idempotent:
  "remaining_after (fusions_after fs blacklist contigs genes ec gap) blacklist contigs genes ec gap =
     remaining_after fs blacklist contigs genes ec gap \<and>
   fusions_after (fusions_after fs blacklist contigs genes ec gap) blacklist contigs genes ec gap =
     fusions_after fs blacklist contigs genes ec gap"
  by (simp add: remaining_after_count filter_twice_same)

text \<open>
  C7. A line that is not a comment and has a token that does not resolve adds one
  warning and changes neither the fusions nor the index; the fusions and the number
  of remaining fusions are those of the blacklist without the line, whatever lines
  come before and after it. A keyword that is not a gene name never resolves as the
  first token.
\<close>

theorem unresolved_line_is_skipped:
  assumes "line \<noteq> []" and "hd line \<noteq> CHR ''#''"
    and "isl (parse_blacklist_item (fst (split_line line)) unassigned_item contigs genes False) \<or>
         isl (parse_blacklist_item (snd (split_line line)) unassigned_item contigs genes True)"
  shows "(\<exists>w. process_line contigs genes ec gap line st = st\<lparr>cerr := cerr st @ [w]\<rparr>) \<and>
         fusions_after fs (before @ line # rest) contigs genes ec gap =
           fusions_after fs (before @ rest) contigs genes ec gap \<and>
         remaining_after fs (before @ line # rest) contigs genes ec gap =
           remaining_after fs (before @ rest) contigs genes ec gap \<and>
         (\<forall>t item. keyword_type t \<noteq> None \<and> genes t = None \<longrightarrow>
            isl (parse_blacklist_item t item contigs genes False))"
proof -
  have "blacklist_steps contigs genes gap (before @ line # rest) =
          blacklist_steps contigs genes gap (before @ rest)"
    using unresolved_line_steps [OF assms(3), of gap] by (simp add: blacklist_steps_def)
  then have same: "fusions_after fs (before @ line # rest) contigs genes ec gap =
                     fusions_after fs (before @ rest) contigs genes ec gap"
    by (simp add: fusions_after_run)
  show ?thesis
    using unresolved_line_warns [OF assms, of ec gap st] same keyword_as_first_token
    by (simp add: remaining_after_count)
qed

theorem unresolved_line_is_skipped_witness:
  "''chrX:5 any'' \<noteq> [] \<and> hd ''chrX:5 any'' \<noteq> CHR ''#'' \<and>
   isl (parse_blacklist_item (fst (split_line ''chrX:5 any'')) unassigned_item
          sample_contigs Map.empty False) \<and>
   fusions_after sample_fusions [''chr1:1001 any'', ''chrX:5 any'', ''chr1:8 any'']
     sample_contigs Map.empty 0 0 =
   fusions_after sample_fusions [''chr1:1001 any'', ''chr1:8 any''] sample_contigs Map.empty 0 0 \<and>
   remaining_after sample_fusions [''chr1:1001 any'', ''chrX:5 any'', ''chr1:8 any'']
     sample_contigs Map.empty 0 0 =
   remaining_after sample_fusions [''chr1:1001 any'', ''chr1:8 any''] sample_contigs Map.empty 0 0 \<and>
   process_line sample_contigs Map.empty 0 0 ''chrX:5 any'' sample_state =
     sample_state\<lparr>cerr := [''earlier'', ''WARNING: unknown gene or malformed range: chrX 5'']\<rparr> \<and>
   isl (parse_blacklist_item ''any'' unassigned_item sample_contigs Map.empty False)"
proof -
  have h: "isl (parse_blacklist_item (fst (split_line ''chrX:5 any'')) unassigned_item
                 sample_contigs Map.empty False)"
    by (simp add: run_defs sample_contigs_def)
  have k: "keyword_type ''any'' \<noteq> None" by (simp add: keyword_type_def)
  have w: "process_line sample_contigs Map.empty 0 0 ''chrX:5 any'' sample_state =
             sample_state\<lparr>cerr := [''earlier'', ''WARNING: unknown gene or malformed range: chrX 5'']\<rparr>"
    by (simp add: run_defs sample_contigs_def sample_state_def)
  note skip = unresolved_line_is_skipped
    [of "''chrX:5 any''" sample_contigs Map.empty 0 0 sample_state sample_fusions
        "[''chr1:1001 any'']" "[''chr1:8 any'']"]
  show ?thesis
    using skip h k w by simp
qed

text \<open>
  C8, as amended. For \<open>0 \<le> start \<le> end \<le> 2147383648\<close>,
  \<open>get_index_keys_from_range\<close> appends to the keys it is given the key
  \<open>(contig, k * 100000)\<close> for every \<open>k\<close> from the floor of \<open>start / 100000\<close> to the
  ceiling of \<open>end / 100000\<close>, in increasing order.
\<close>

theorem index_keys_of_range:
  assumes "0 \<le> start_v" and "start_v \<le> end_v" and "end_v \<le> 2147383648"
  shows "get_index_keys_from_range c start_v end_v ks =
           ks @ map (\<lambda>k. (c, k * 100000))
                  [\<lfloor>(of_int start_v :: rat) / 100000\<rfloor>..\<lceil>(of_int end_v :: rat) / 100000\<rceil>]"
  using assms by (simp only: get_index_keys_in_range floor_bucket ceiling_bucket)

theorem index_keys_of_range_witness:
  "(0::int) \<le> 150000 \<and> (150000::int) \<le> 420000 \<and> (420000::int) \<le> 2147383648 \<and>
   get_index_keys_from_range 3 150000 420000 [] =
     [(3, 100000), (3, 200000), (3, 300000), (3, 400000), (3, 500000)]"
proof -
  have f: "\<lfloor>(3 :: rat) / 2\<rfloor> = 1"
    by (rule floor_unique) simp_all
  have c: "\<lceil>(21 :: rat) / 5\<rceil> = 5"
    by (rule ceiling_unique) simp_all
  have u: "[1..5] = [1, 2, 3, 4, 5 :: int]"
    by (simp add: upto.simps)
  show ?thesis
    using index_keys_of_range [of 150000 420000 3 "[]"] by (simp add: f c u)
qed

text \<open>
  The claim as it was stated has no upper bound. For \<open>start = end = 2147383649\<close>,
  which is a 32-bit \<^verbatim>\<open>int\<close>, the floor is 21473 and the ceiling 21474, and the function
  appends no key: \<open>end + 100000\<close> does not fit and the bound of the loop comes out
  negative.
\<close>

theorem index_keys_of_range_overflow:
  "(0 :: int) \<le> 2147383649 \<and> fits_int 2147383649 \<and>
   \<lfloor>(2147383649 :: rat) / 100000\<rfloor> = 21473 \<and> \<lceil>(2147383649 :: rat) / 100000\<rceil> = 21474 \<and>
   get_index_keys_from_range 3 2147383649 2147383649 [] = []"
proof -
  have f: "\<lfloor>(2147383649 :: rat) / 100000\<rfloor> = 21473"
    by (rule floor_unique) simp_all
  have c: "\<lceil>(2147383649 :: rat) / 100000\<rceil> = 21474"
    by (rule ceiling_unique) simp_all
  have k: "get_index_keys_from_range 3 2147383649 2147383649 [] = []"
    by (simp add: get_index_keys_from_range_eq bucket_size_def c_div_def int32_def upto.simps)
  from f c k show ?thesis
    by (simp add: fits_int_def INT_MIN_def INT_MAX_def)
qed

text \<open>
  C9. The filter returns as many fusions as it was given, and each of them is the
  fusion it was given with at most the filter written: every other field is
  unchanged.
\<close>

theorem only_the_filter_is_written:
  "length (fusions_after fs blacklist contigs genes ec gap) = length fs \<and>
   (\<forall>i<length fs.
      fusions_after fs blacklist contigs genes ec gap ! i =
        (fs ! i)\<lparr>filter_ptr := filter_ptr (fusions_after fs blacklist contigs genes ec gap ! i)\<rparr>)"
  using filter_effect [of fs blacklist contigs genes ec gap] fusion_after_frame
  by blast

theorem only_the_filter_is_written_witness:
  "length (fusions_after sample_fusions sample_blacklist sample_contigs Map.empty 0 0) = 4 \<and>
   (1::nat) < length sample_fusions \<and>
   fusions_after sample_fusions sample_blacklist sample_contigs Map.empty 0 0 ! 1 =
     (sample_fusions ! 1)\<lparr>filter_ptr := Some ''blacklist''\<rparr>"
proof -
  have run: "fusions_after sample_fusions sample_blacklist sample_contigs Map.empty 0 0 ! 1 =
               sample_fusion\<lparr>breakpoint1 := 7, closest_genomic_breakpoint1 := 12,
                 filter_ptr := Some ''blacklist''\<rparr>"
    by (simp add: fusions_after_def sample_run)
  have len: "length sample_fusions = 4" by (simp add: sample_fusions_def)
  have fp: "filter_ptr (fusions_after sample_fusions sample_blacklist sample_contigs Map.empty 0 0 ! 1)
              = Some ''blacklist''"
    by (simp add: fusions_after_def sample_run)
  note frame = only_the_filter_is_written
    [of sample_fusions sample_blacklist sample_contigs Map.empty 0 0]
  from frame have a: "length (fusions_after sample_fusions sample_blacklist sample_contigs Map.empty 0 0) = 4"
    by (simp add: len)
  from frame have "fusions_after sample_fusions sample_blacklist sample_contigs Map.empty 0 0 ! 1 =
      (sample_fusions ! 1)\<lparr>filter_ptr :=
         filter_ptr (fusions_after sample_fusions sample_blacklist sample_contigs Map.empty 0 0 ! 1)\<rparr>"
    by (simp add: len)
  then have b: "fusions_after sample_fusions sample_blacklist sample_contigs Map.empty 0 0 ! 1 =
      (sample_fusions ! 1)\<lparr>filter_ptr := Some ''blacklist''\<rparr>"
    by (simp only: fp)
  from a b len show ?thesis by simp
qed

text \<open>
  C10, as amended. A fusion that arrives with its filter set is treated by the sign of
  \<open>closest_genomic_breakpoint1\<close>. When it is negative the fusion is in no set of the
  index and keeps its filter. Otherwise the fusion is in the set of the index under
  each of its keys; it has at least one key when its first breakpoint is a 32-bit
  \<^verbatim>\<open>int\<close> of at most 2147383648; and its filter is overwritten with the blacklist
  filter exactly when a line of the blacklist resolves, looks up one of the keys of
  the fusion, and matches the fusion.
\<close>

theorem filtered_fusion_and_genomic_support:
  assumes "i < length fs" and "filter_ptr (fs ! i) = Some reason"
  shows "(closest_genomic_breakpoint1 (fs ! i) < 0 \<longrightarrow>
            (\<forall>k. i \<notin> set (bucket (index_fusions fs [0..<length fs] Map.empty) k)) \<and>
            filter_ptr (fusions_after fs blacklist contigs genes ec gap ! i) = Some reason) \<and>
         (0 \<le> closest_genomic_breakpoint1 (fs ! i) \<longrightarrow>
            (\<forall>k\<in>set (fusion_index_keys (fs ! i)).
               i \<in> set (bucket (index_fusions fs [0..<length fs] Map.empty) k)) \<and>
            (INT_MIN \<le> breakpoint1 (fs ! i) \<and> breakpoint1 (fs ! i) \<le> 2147383648 \<longrightarrow>
               fusion_index_keys (fs ! i) \<noteq> []) \<and>
            filter_ptr (fusions_after fs blacklist contigs genes ec gap ! i) =
              (if hit_by_blacklist contigs genes ec gap blacklist (fs ! i)
               then Some blacklist_filter else Some reason))"
proof -
  have el: "eligible (fs ! i) \<longleftrightarrow> 0 \<le> closest_genomic_breakpoint1 (fs ! i)"
    using assms(2) by (simp add: eligible_def)
  show ?thesis
    using assms
    by (simp add: built_index_bucket filter_ptr_after el fusion_index_keys_nonempty)
qed

theorem filtered_fusion_and_genomic_support_witness:
  "(1::nat) < length sample_fusions \<and> filter_ptr (sample_fusions ! 1) = Some ''intronic'' \<and>
   0 \<le> closest_genomic_breakpoint1 (sample_fusions ! 1) \<and>
   INT_MIN \<le> breakpoint1 (sample_fusions ! 1) \<and> breakpoint1 (sample_fusions ! 1) \<le> 2147383648 \<and>
   fusion_index_keys (sample_fusions ! 1) \<noteq> [] \<and>
   hit_by_blacklist sample_contigs Map.empty 0 0 sample_blacklist (sample_fusions ! 1) \<and>
   filter_ptr (fusions_after sample_fusions sample_blacklist sample_contigs Map.empty 0 0 ! 1) =
     Some blacklist_filter \<and>
   (2::nat) < length sample_fusions \<and> filter_ptr (sample_fusions ! 2) = Some ''intronic'' \<and>
   closest_genomic_breakpoint1 (sample_fusions ! 2) < 0 \<and>
   hit_by_blacklist sample_contigs Map.empty 0 0 sample_blacklist (sample_fusions ! 2) \<and>
   filter_ptr (fusions_after sample_fusions sample_blacklist sample_contigs Map.empty 0 0 ! 2) =
     Some ''intronic''"
proof -
  have one: "(1::nat) < length sample_fusions" "filter_ptr (sample_fusions ! 1) = Some ''intronic''"
    "0 \<le> closest_genomic_breakpoint1 (sample_fusions ! 1)"
    "INT_MIN \<le> breakpoint1 (sample_fusions ! 1)" "breakpoint1 (sample_fusions ! 1) \<le> 2147383648"
    by (simp_all add: sample_fusions_def sample_fusion_def INT_MIN_def)
  have two: "(2::nat) < length sample_fusions" "filter_ptr (sample_fusions ! 2) = Some ''intronic''"
    "closest_genomic_breakpoint1 (sample_fusions ! 2) < 0"
    by (simp_all add: sample_fusions_def sample_fusion_def)
  have hit1: "hit_by_blacklist sample_contigs Map.empty 0 0 sample_blacklist (sample_fusions ! 1)"
    by (simp add: hit_defs run_defs sample_fusions_def sample_blacklist_def sample_contigs_def
        sample_fusion_def gene_a_def gene_b_def)
  have hit2: "hit_by_blacklist sample_contigs Map.empty 0 0 sample_blacklist (sample_fusions ! 2)"
    by (simp add: hit_defs run_defs sample_fusions_def sample_blacklist_def sample_contigs_def
        sample_fusion_def gene_a_def gene_b_def)
  note t1 = filtered_fusion_and_genomic_support
    [OF one(1,2), of sample_blacklist sample_contigs Map.empty 0 0]
  note t2 = filtered_fusion_and_genomic_support
    [OF two(1,2), of sample_blacklist sample_contigs Map.empty 0 0]
  from t1 one(3) hit1 have r1:
    "filter_ptr (fusions_after sample_fusions sample_blacklist sample_contigs Map.empty 0 0 ! 1) =
       Some blacklist_filter"
    by simp
  from t1 one(3,4,5) have k1: "fusion_index_keys (sample_fusions ! 1) \<noteq> []"
    by blast
  from t2 two(3) have r2:
    "filter_ptr (fusions_after sample_fusions sample_blacklist sample_contigs Map.empty 0 0 ! 2) =
       Some ''intronic''"
    by simp
  from one two hit1 hit2 r1 k1 r2 show ?thesis by simp
qed

text \<open>
  The claim as it was stated asks for this of every fusion. The fusion \<open>far_fusion\<close>
  arrives with the filter \<open>intronic\<close> and a genomic breakpoint; its breakpoints and
  genes lie above 2147383648, it has no key, and the index built from it is empty.
  The line \<open>chr1:2147383650 any\<close> resolves to the position of its first breakpoint
  and the keyword, the two items match the fusion, and the fusion keeps its filter.
\<close>

theorem distant_fusion_is_not_indexed:
  "filter_ptr far_fusion = Some ''intronic'' \<and> 0 \<le> closest_genomic_breakpoint1 far_fusion \<and>
   fits_int (breakpoint1 far_fusion) \<and>
   fusion_index_keys far_fusion = [] \<and>
   index_fusions [far_fusion] [0..<length [far_fusion]] Map.empty = Map.empty \<and>
   parse_line sample_contigs Map.empty ''chr1:2147383650 any'' =
     Some (position_item 1 2147383649, unassigned_item\<lparr>item_type := BLACKLIST_ANY\<rparr>) \<and>
   line_matches (position_item 1 2147383649) (unassigned_item\<lparr>item_type := BLACKLIST_ANY\<rparr>)
     far_fusion 0 0 \<and>
   fusions_after [far_fusion] [''chr1:2147383650 any''] sample_contigs Map.empty 0 0 =
     [far_fusion]"
  by (simp add: hit_defs run_defs fits_int_def far_fusion_def far_gene_def sample_contigs_def
      sample_fusion_def gene_a_def gene_b_def position_item_def)

end
